theory Spec2Isabelle
  imports Main "HOL-Library.Word"
begin

section \<open>The managed thread of juce\_Thread.cpp\<close>

text \<open>
  The file embeds \<^verbatim>\<open>src/juce_core/threads/juce_Thread.cpp\<close>. A \<^verbatim>\<open>Thread*\<close> and
  a native handle are natural numbers, \<open>0\<close> being the null pointer. The objects live in
  a heap indexed by their address; the file-static \<^verbatim>\<open>runningThreads\<close> array is a list
  of addresses.

  Two kinds of code run on a world: the operations a client calls (\<^verbatim>\<open>startThread\<close>,
  \<^verbatim>\<open>stopThread\<close>, ...) and the trampoline \<^verbatim>\<open>threadEntryPoint\<close>, which the platform
  runs on the native thread it created. The trampoline is given twice: as the whole
  function, statement after statement, and as a program counter per instance that a
  scheduler advances one statement at a time while a client sleeps.

  How the threads interleave: one client runs at a time (the operations that change an
  instance hold its \<^verbatim>\<open>startStopLock\<close>, which is not traced). The native threads run
  while the client sleeps and, in \<^verbatim>\<open>stopThread\<close>, between any two statements of the
  client that read or write what the native threads share with it, in any order and any
  number of statements, as a schedule tells. The schedule is a parameter of every
  operation that lets the others run, so a statement about all schedules is a statement
  about all such interleavings. Every action is recorded in a trace with the thread that
  performed it. The lifecycle of an instance, defined further down, takes every store of
  a client as a step of its own.

  The \<^verbatim>\<open>int\<close> of the source is an unbounded integer here. The only arithmetic on one
  is in \<^verbatim>\<open>waitForThreadToExit\<close>: a division by 5 and, for a positive timeout only, the
  decrements of the count from the quotient down to \<open>-1\<close>, which 32 bits hold.
\<close>

subsection \<open>Data\<close>

record Thread =
  threadName :: string
  threadHandle :: nat
  threadPriority :: int
  threadId :: nat
  affinityMask :: "32 word"
  threadShouldExit :: bool

text \<open>
  The fields carry the names of the class without the final underscore, which an
  identifier cannot end with here. The constructor is
  \<^verbatim>\<open>Thread::Thread (const String& threadName)\<close>.
\<close>

definition Thread_new :: "string \<Rightarrow> Thread" where
  "Thread_new name =
     \<lparr>threadName = name, threadHandle = 0, threadPriority = 5, threadId = 0,
      affinityMask = 0, threadShouldExit = False\<rparr>"

text \<open>
  Who performs an action: the client that called an operation, or the native thread that
  runs the trampoline of the instance at an address.
\<close>

datatype actor = Caller | Native nat

datatype action =
    CreateThread nat nat
  | SetThreadPriority nat int
  | KillThread nat
  | SetCurrentThreadName string
  | CloseThreadHandle nat
  | SetAffinityMask "32 word"
  | GateSignal nat
  | GateWait int bool
  | Notify nat
  | LockEnter
  | LockExit
  | RegistryAdd nat
  | RegistryRemove nat
  | CaptureId nat
  | RunUserCode
  | AssertFailed
  | LogMessage string
  | Sleep int
  | HandleCleared
  | IdCleared

text \<open>Where the native thread of an instance stands in \<^verbatim>\<open>threadEntryPoint\<close>.\<close>

datatype pc =
    Idle
  | AtRegister
  | AtCaptureId
  | AtApplyName
  | AtGateWait
  | AtAffinity
  | AtRun
  | AtDeregister
  | AtCloseHandle
  | AtClearHandle

text \<open>
  The world: the heap of \<^verbatim>\<open>Thread\<close> objects, the registry, the program counter of the
  native thread that each instance owns (\<open>Idle\<close>: none), the native threads that have
  cleared the handle of their instance (line 91) and have line 92 left to run, the actions
  performed so far, and the number of \<^verbatim>\<open>sleep\<close> calls so far.
\<close>

record world =
  heap :: "nat \<Rightarrow> Thread"
  runningThreads :: "nat list"
  tpc :: "nat \<Rightarrow> pc"
  exiting :: "nat list"
  trace :: "(actor \<times> action) list"
  clock :: nat

text \<open>
  The platform-specific functions declared at lines 43 to 49 and the user's \<^verbatim>\<open>run()\<close>
  are not part of the file; they are parameters. \<open>juce_createThread\<close> gives the handle
  returned for an instance (\<open>0\<close>: no thread was created), \<open>getCurrentThreadId\<close> the id of
  the native thread running the trampoline of an instance, \<open>gate_signalled\<close> what
  \<^verbatim>\<open>startSuspensionEvent_.wait (10000)\<close> returns there, and \<open>run_throws\<close> whether
  \<^verbatim>\<open>run()\<close> ends by an exception.
\<close>

record platform =
  juce_createThread :: "nat \<Rightarrow> nat"
  juce_setThreadPriority :: "nat \<Rightarrow> int \<Rightarrow> bool"
  getCurrentThreadId :: "nat \<Rightarrow> nat"
  JUCE_WIN32 :: bool
  gate_signalled :: "nat \<Rightarrow> bool"
  run_throws :: "nat \<Rightarrow> bool"

datatype sched_item = Advance nat | FinishExit nat

type_synonym sched = "nat \<Rightarrow> sched_item list"

definition upd :: "nat \<Rightarrow> (Thread \<Rightarrow> Thread) \<Rightarrow> world \<Rightarrow> world" where
  "upd this f w = w\<lparr>heap := (heap w)(this := f (heap w this))\<rparr>"

definition emit :: "actor \<Rightarrow> action \<Rightarrow> world \<Rightarrow> world" where
  "emit a e w = w\<lparr>trace := trace w @ [(a, e)]\<rparr>"

text \<open>
  Modelled from the spec: the macros \<^verbatim>\<open>jassert\<close> and \<^verbatim>\<open>jassertfalse\<close> of
  juce\_StandardHeader.h, which is not among the sources. A failed assertion is surfaced
  (section 7) and execution goes on.
\<close>

definition jassert :: "actor \<Rightarrow> bool \<Rightarrow> world \<Rightarrow> world" where
  "jassert a b w = (if b then w else emit a AssertFailed w)"

definition jassertfalse :: "actor \<Rightarrow> world \<Rightarrow> world" where
  "jassertfalse a w = emit a AssertFailed w"

text \<open>
  Modelled from the spec: the container \<^verbatim>\<open>VoidArray\<close> of juce\_VoidArray.h, which is
  not among the sources. \<^verbatim>\<open>add\<close> appends, \<^verbatim>\<open>removeValue\<close> removes the first
  occurrence found by a linear scan, and \<^verbatim>\<open>operator[]\<close> gives the null pointer for an
  index out of range (\<^verbatim>\<open>stopAllThreads\<close> tests \<^verbatim>\<open>runningThreads[0]\<close> against \<open>0\<close>).
\<close>

definition VoidArray_add :: "nat list \<Rightarrow> nat \<Rightarrow> nat list" where
  "VoidArray_add xs x = xs @ [x]"

definition VoidArray_removeValue :: "nat list \<Rightarrow> nat \<Rightarrow> nat list" where
  "VoidArray_removeValue xs x = remove1 x xs"

definition VoidArray_contains :: "nat list \<Rightarrow> nat \<Rightarrow> bool" where
  "VoidArray_contains xs x = (x \<in> set xs)"

definition VoidArray_index :: "nat list \<Rightarrow> nat \<Rightarrow> nat" where
  "VoidArray_index xs i = (if i < length xs then xs ! i else 0)"

subsection \<open>Operations of a client\<close>

definition isThreadRunning :: "nat \<Rightarrow> world \<Rightarrow> bool" where
  "isThreadRunning this w = (threadHandle (heap w this) \<noteq> 0)"

definition getThreadId :: "nat \<Rightarrow> world \<Rightarrow> nat" where
  "getThreadId this w = threadId (heap w this)"


definition signalThreadShouldExit :: "nat \<Rightarrow> world \<Rightarrow> world" where
  "signalThreadShouldExit this w = upd this (\<lambda>th. th\<lparr>threadShouldExit := True\<rparr>) w"

definition notify :: "nat \<Rightarrow> world \<Rightarrow> world" where
  "notify this w = emit Caller (Notify this) w"

definition setAffinityMask :: "32 word \<Rightarrow> nat \<Rightarrow> world \<Rightarrow> world" where
  "setAffinityMask m this w = upd this (\<lambda>th. th\<lparr>affinityMask := m\<rparr>) w"

text \<open>
  \<^verbatim>\<open>juce_createThread\<close> starts a native thread at the head of the trampoline when it
  returns a handle. In \<^verbatim>\<open>startThread\<close> as a whole the store of line 127 follows at
  once; the lifecycle defined further down lets the native thread run in between.
\<close>

definition spawn :: "nat \<Rightarrow> nat \<Rightarrow> world \<Rightarrow> world" where
  "spawn this h w = (if h = 0 then w else w\<lparr>tpc := (tpc w)(this := AtRegister)\<rparr>)"

definition startThread :: "platform \<Rightarrow> nat \<Rightarrow> world \<Rightarrow> world" where
  "startThread P this w =
     (let w1 = upd this (\<lambda>th. th\<lparr>threadShouldExit := False\<rparr>) w in
      if threadHandle (heap w1 this) = 0 then
        (let h = juce_createThread P this;
             w2 = spawn this h (emit Caller (CreateThread this h) w1);
             w3 = upd this (\<lambda>th. th\<lparr>threadHandle := h\<rparr>) w2;
             w4 = emit Caller
                    (SetThreadPriority (threadHandle (heap w3 this))
                       (threadPriority (heap w3 this))) w3
         in emit Caller (GateSignal this) w4)
      else w1)"

definition setPriority :: "platform \<Rightarrow> int \<Rightarrow> nat \<Rightarrow> world \<Rightarrow> bool \<times> world" where
  "setPriority P priority this w =
     (let h = threadHandle (heap w this);
          worked = juce_setThreadPriority P h priority;
          w1 = emit Caller (SetThreadPriority h priority) w;
          w2 = (if worked then upd this (\<lambda>th. th\<lparr>threadPriority := priority\<rparr>) w1 else w1)
      in (worked, w2))"

definition startThread_priority :: "platform \<Rightarrow> int \<Rightarrow> nat \<Rightarrow> world \<Rightarrow> world" where
  "startThread_priority P priority this w =
     (if threadHandle (heap w this) = 0 then
        startThread P this (upd this (\<lambda>th. th\<lparr>threadPriority := priority\<rparr>) w)
      else snd (setPriority P priority this w))"

subsection \<open>The trampoline, statement by statement\<close>

text \<open>Lines 58 to 61: the registration, under the registry lock.\<close>

definition te_register :: "nat \<Rightarrow> world \<Rightarrow> world" where
  "te_register thread w =
     (let w1 = emit (Native thread) LockEnter w;
          w2 = w1\<lparr>runningThreads := VoidArray_add (runningThreads w1) thread\<rparr>;
          w3 = emit (Native thread) (RegistryAdd thread) w2
      in emit (Native thread) LockExit w3)"

text \<open>Line 65.\<close>

definition te_capture_id :: "platform \<Rightarrow> nat \<Rightarrow> world \<Rightarrow> world" where
  "te_capture_id P thread w =
     emit (Native thread) (CaptureId (getCurrentThreadId P thread))
       (upd thread (\<lambda>th. th\<lparr>threadId := getCurrentThreadId P thread\<rparr>) w)"

text \<open>Lines 67 and 68.\<close>

definition te_apply_name :: "nat \<Rightarrow> world \<Rightarrow> world" where
  "te_apply_name thread w =
     (if threadName (heap w thread) \<noteq> []
      then emit (Native thread) (SetCurrentThreadName (threadName (heap w thread))) w
      else w)"

text \<open>Line 70: the wait on the start gate and what it returned.\<close>

definition te_wait_gate :: "platform \<Rightarrow> nat \<Rightarrow> world \<Rightarrow> bool \<times> world" where
  "te_wait_gate P thread w =
     (gate_signalled P thread,
      emit (Native thread) (GateWait 10000 (gate_signalled P thread)) w)"

text \<open>Lines 72 and 73.\<close>

definition te_affinity :: "nat \<Rightarrow> world \<Rightarrow> world" where
  "te_affinity thread w =
     (if affinityMask (heap w thread) \<noteq> 0
      then emit (Native thread) (SetAffinityMask (affinityMask (heap w thread))) w
      else w)"

text \<open>
  Line 75: the user's code. It is opaque: what it does to a \<^verbatim>\<open>Thread\<close> goes through
  the operations of this file, which are steps of their own.
\<close>

datatype outcome = Returned | Thrown

definition te_run :: "platform \<Rightarrow> nat \<Rightarrow> world \<Rightarrow> outcome \<times> world" where
  "te_run P thread w =
     (if run_throws P thread then Thrown else Returned, emit (Native thread) RunUserCode w)"

text \<open>
  Modelled from the spec: the macros \<^verbatim>\<open>JUCE_TRY\<close> and \<^verbatim>\<open>JUCE_CATCH_ALL_ASSERT\<close> of
  juce\_StandardHeader.h, which is not among the sources. Section 7: a fault of the user's
  code is caught at the trampoline boundary; the name of the second macro says that the
  handler asserts.
\<close>

definition JUCE_TRY_CATCH_ALL_ASSERT ::
  "actor \<Rightarrow> (world \<Rightarrow> outcome \<times> world) \<Rightarrow> world \<Rightarrow> outcome \<times> world" where
  "JUCE_TRY_CATCH_ALL_ASSERT a body w =
     (case body w of
        (Thrown, w1) \<Rightarrow> (Returned, jassertfalse a w1)
      | (Returned, w1) \<Rightarrow> (Returned, w1))"

text \<open>Lines 80 to 85: the removal from the registry, under the registry lock.\<close>

definition te_deregister :: "nat \<Rightarrow> world \<Rightarrow> world" where
  "te_deregister thread w =
     (let w1 = emit (Native thread) LockEnter w;
          w2 = jassert (Native thread) (VoidArray_contains (runningThreads w1) thread) w1;
          w3 = w2\<lparr>runningThreads := VoidArray_removeValue (runningThreads w2) thread\<rparr>;
          w4 = emit (Native thread) (RegistryRemove thread) w3
      in emit (Native thread) LockExit w4)"

text \<open>Lines 87 to 89.\<close>

definition te_close_handle :: "platform \<Rightarrow> nat \<Rightarrow> world \<Rightarrow> world" where
  "te_close_handle P thread w =
     (if JUCE_WIN32 P
      then emit (Native thread) (CloseThreadHandle (threadHandle (heap w thread))) w
      else w)"

text \<open>Line 91.\<close>

definition te_clear_handle :: "nat \<Rightarrow> world \<Rightarrow> world" where
  "te_clear_handle thread w =
     emit (Native thread) HandleCleared (upd thread (\<lambda>th. th\<lparr>threadHandle := 0\<rparr>) w)"

text \<open>Line 92.\<close>

definition te_clear_id :: "nat \<Rightarrow> world \<Rightarrow> world" where
  "te_clear_id thread w =
     emit (Native thread) IdCleared (upd thread (\<lambda>th. th\<lparr>threadId := 0\<rparr>) w)"

text \<open>The block between \<^verbatim>\<open>JUCE_TRY\<close> and \<^verbatim>\<open>JUCE_CATCH_ALL_ASSERT\<close>, lines 64 to 77.\<close>

definition te_guarded :: "platform \<Rightarrow> nat \<Rightarrow> world \<Rightarrow> outcome \<times> world" where
  "te_guarded P thread w =
     (let w1 = te_capture_id P thread w;
          w2 = te_apply_name thread w1;
          (signalled, w3) = te_wait_gate P thread w2
      in if signalled then te_run P thread (te_affinity thread w3) else (Returned, w3))"

text \<open>
  \<^verbatim>\<open>Thread::threadEntryPoint\<close> as a whole. The first component tells how control leaves
  the function.
\<close>

definition threadEntryPoint :: "platform \<Rightarrow> nat \<Rightarrow> world \<Rightarrow> outcome \<times> world" where
  "threadEntryPoint P thread w =
     (let w1 = te_register thread w;
          (r, w2) = JUCE_TRY_CATCH_ALL_ASSERT (Native thread) (te_guarded P thread) w1;
          w3 = te_deregister thread w2;
          w4 = te_close_handle P thread w3;
          w5 = te_clear_handle thread w4;
          w6 = te_clear_id thread w5
      in (r, w6))"

subsection \<open>The trampoline, one statement at a time\<close>

definition set_pc :: "nat \<Rightarrow> pc \<Rightarrow> world \<Rightarrow> world" where
  "set_pc t p w = w\<lparr>tpc := (tpc w)(t := p)\<rparr>"

text \<open>
  The native thread of instance \<open>t\<close> runs the statement it stands at. After line 91 the
  instance owns no native thread any more, and the one that leaves has line 92 left.
\<close>

definition tramp_step :: "platform \<Rightarrow> nat \<Rightarrow> world \<Rightarrow> world" where
  "tramp_step P t w =
     (case tpc w t of
        Idle \<Rightarrow> w
      | AtRegister \<Rightarrow> set_pc t AtCaptureId (te_register t w)
      | AtCaptureId \<Rightarrow> set_pc t AtApplyName (te_capture_id P t w)
      | AtApplyName \<Rightarrow> set_pc t AtGateWait (te_apply_name t w)
      | AtGateWait \<Rightarrow>
          (case te_wait_gate P t w of
             (signalled, w1) \<Rightarrow> set_pc t (if signalled then AtAffinity else AtDeregister) w1)
      | AtAffinity \<Rightarrow> set_pc t AtRun (te_affinity t w)
      | AtRun \<Rightarrow>
          set_pc t AtDeregister (snd (JUCE_TRY_CATCH_ALL_ASSERT (Native t) (te_run P t) w))
      | AtDeregister \<Rightarrow> set_pc t AtCloseHandle (te_deregister t w)
      | AtCloseHandle \<Rightarrow> set_pc t AtClearHandle (te_close_handle P t w)
      | AtClearHandle \<Rightarrow> (set_pc t Idle (te_clear_handle t w))\<lparr>exiting := t # exiting w\<rparr>)"

definition exit_step :: "nat \<Rightarrow> world \<Rightarrow> world" where
  "exit_step t w =
     (if t \<in> set (exiting w) then (te_clear_id t w)\<lparr>exiting := remove1 t (exiting w)\<rparr>
      else w)"

fun env_step :: "platform \<Rightarrow> world \<Rightarrow> sched_item \<Rightarrow> world" where
  "env_step P w (Advance t) = tramp_step P t w"
| "env_step P w (FinishExit t) = exit_step t w"

text \<open>
  \<^verbatim>\<open>sleep (ms)\<close> of a client: the native threads named by the schedule for this sleep
  run, each one statement, in the order given.
\<close>

definition sleep :: "platform \<Rightarrow> sched \<Rightarrow> int \<Rightarrow> world \<Rightarrow> world" where
  "sleep P S ms w =
     (let w1 = emit Caller (Sleep ms) w;
          w2 = foldl (env_step P) w1 (S (clock w1))
      in w2\<lparr>clock := Suc (clock w2)\<rparr>)"

text \<open>
  Between two statements of a client the others may run too: a turn of the native threads
  with no sleep of the client. It uses up one slot of the schedule, as a sleep does.
\<close>

definition yield :: "platform \<Rightarrow> sched \<Rightarrow> world \<Rightarrow> world" where
  "yield P S w =
     (let w1 = foldl (env_step P) w (S (clock w))
      in w1\<lparr>clock := Suc (clock w1)\<rparr>)"

subsection \<open>Waiting and stopping\<close>

text \<open>Division of \<^verbatim>\<open>int\<close> by a positive constant, which truncates towards zero.\<close>

definition cdiv :: "int \<Rightarrow> int \<Rightarrow> int" where
  "cdiv a b = (if a < 0 then - ((- a) div b) else a div b)"

definition sleepMsPerIteration :: int where
  "sleepMsPerIteration = 5"

text \<open>
  The loop of lines 167 to 173. \<^verbatim>\<open>--count\<close> is evaluated only when the timeout is
  positive. The loop need not end: its result is \<open>None\<close> then.
\<close>

partial_function (option) wait_loop ::
  "platform \<Rightarrow> sched \<Rightarrow> int \<Rightarrow> nat \<Rightarrow> int \<Rightarrow> world \<Rightarrow> (bool \<times> world) option" where
  "wait_loop P S timeOutMilliseconds this count w =
     (if isThreadRunning this w then
        (if timeOutMilliseconds > 0 then
           (if count - 1 < 0 then Some (False, w)
            else wait_loop P S timeOutMilliseconds this (count - 1)
                   (sleep P S sleepMsPerIteration w))
         else wait_loop P S timeOutMilliseconds this count (sleep P S sleepMsPerIteration w))
      else Some (True, w))"

declare wait_loop.simps [code]

text \<open>\<open>cid\<close> is what \<^verbatim>\<open>getCurrentThreadId()\<close> returns to the client.\<close>

definition waitForThreadToExit ::
  "platform \<Rightarrow> sched \<Rightarrow> nat \<Rightarrow> int \<Rightarrow> nat \<Rightarrow> world \<Rightarrow> (bool \<times> world) option" where
  "waitForThreadToExit P S cid timeOutMilliseconds this w =
     (let w0 = jassert Caller (getThreadId this w \<noteq> cid) w;
          count = cdiv timeOutMilliseconds sleepMsPerIteration
      in wait_loop P S timeOutMilliseconds this count w0)"

text \<open>
  Modelled from the spec: \<^verbatim>\<open>juce_killThread\<close>, declared at line 44 and defined in
  the platform layer, which is not among the sources. Section 6: unconditional, immediate
  termination of the native thread with that handle, which is the one that the instance
  owns; the null handle names no thread.
\<close>

definition kill_native :: "nat \<Rightarrow> nat \<Rightarrow> world \<Rightarrow> world" where
  "kill_native h this w = (if h = 0 then w else w\<lparr>tpc := (tpc w)(this := Idle)\<rparr>)"

text \<open>
  Lines 199 to 207, the forced branch. The others may run after the test of line 194 and
  between the call of line 202, the stores of lines 203 and 204 and the removal of line
  207, which alone is under the registry lock.
\<close>

definition force_kill :: "platform \<Rightarrow> sched \<Rightarrow> nat \<Rightarrow> world \<Rightarrow> world" where
  "force_kill P S this w =
     (let w1 = jassertfalse Caller w;
          w2 = emit Caller (LogMessage ''!! killing thread by force !!'') w1;
          w3 = yield P S w2;
          h = threadHandle (heap w3 this);
          w4 = kill_native h this (emit Caller (KillThread h) w3);
          w5 = upd this (\<lambda>th. th\<lparr>threadHandle := 0\<rparr>) (yield P S w4);
          w6 = upd this (\<lambda>th. th\<lparr>threadId := 0\<rparr>) (yield P S w5);
          w7 = emit Caller LockEnter (yield P S w6);
          w8 = w7\<lparr>runningThreads := VoidArray_removeValue (runningThreads w7) this\<rparr>;
          w9 = emit Caller (RegistryRemove this) w8
      in emit Caller LockExit w9)"

text \<open>
  \<^verbatim>\<open>Thread::stopThread\<close>. The assertion of line 182 and the test of line 186 read
  the world of the call. The others may run after the test of line 186, after the signal,
  after the notification and, once the wait has returned, before the test of line 194,
  which reads the handle again.
\<close>

definition stopThread ::
  "platform \<Rightarrow> sched \<Rightarrow> nat \<Rightarrow> int \<Rightarrow> nat \<Rightarrow> world \<Rightarrow> world option" where
  "stopThread P S cid timeOutMilliseconds this w =
     (let w0 = jassert Caller (cid \<noteq> getThreadId this w) w in
      if isThreadRunning this w0 then
        (let w1 = signalThreadShouldExit this (yield P S w0);
             w2 = notify this (yield P S w1);
             w3 = yield P S w2
         in Option.bind
              (if timeOutMilliseconds \<noteq> 0
               then map_option snd (waitForThreadToExit P S cid timeOutMilliseconds this w3)
               else Some w3)
              (\<lambda>w4. let w5 = yield P S w4
                    in Some (if isThreadRunning this w5 then force_kill P S this w5 else w5)))
      else Some w0)"

subsection \<open>Stopping every thread\<close>

text \<open>
  The loop of lines 279 and 280, \<^verbatim>\<open>for (int i = runningThreads.size(); --i >= 0;)\<close>,
  started with \<open>i\<close> the size of the array.
\<close>

fun signal_from :: "nat \<Rightarrow> world \<Rightarrow> world" where
  "signal_from 0 w = w"
| "signal_from (Suc i) w = signal_from i (signalThreadShouldExit (runningThreads w ! i) w)"

text \<open>The loop of lines 283 to 293.\<close>

partial_function (option) stop_loop ::
  "platform \<Rightarrow> sched \<Rightarrow> nat \<Rightarrow> int \<Rightarrow> world \<Rightarrow> world option" where
  "stop_loop P S cid timeOutMilliseconds w =
     (let w1 = emit Caller LockEnter w;
          t = VoidArray_index (runningThreads w1) 0;
          w2 = emit Caller LockExit w1
      in if t = 0 then Some w2
         else Option.bind (stopThread P S cid timeOutMilliseconds t w2)
                (stop_loop P S cid timeOutMilliseconds))"

declare stop_loop.simps [code]

text \<open>The block of lines 276 to 281.\<close>

definition signal_pass :: "world \<Rightarrow> world" where
  "signal_pass w =
     (let w1 = emit Caller LockEnter w;
          w2 = signal_from (length (runningThreads w1)) w1
      in emit Caller LockExit w2)"

definition stopAllThreads ::
  "platform \<Rightarrow> sched \<Rightarrow> nat \<Rightarrow> int \<Rightarrow> world \<Rightarrow> world option" where
  "stopAllThreads P S cid timeOutMilliseconds w =
     stop_loop P S cid timeOutMilliseconds (signal_pass w)"

subsection \<open>Worlds that the code produces\<close>

text \<open>
  Between line 60 and line 84 the native thread of an instance stands at one of these
  statements.
\<close>

fun registered :: "pc \<Rightarrow> bool" where
  "registered AtCaptureId = True"
| "registered AtApplyName = True"
| "registered AtGateWait = True"
| "registered AtAffinity = True"
| "registered AtRun = True"
| "registered AtDeregister = True"
| "registered p = False"

text \<open>
  What the program counters say about the fields they abstract: the registry holds the
  instances whose native thread is between registration and removal, once each; an
  instance has a handle exactly when it owns a native thread; an instance with a thread
  id owns a native thread or has one that is leaving; no object lives at the null
  address; finitely many native threads exist.
\<close>

definition coherent :: "world \<Rightarrow> bool" where
  "coherent w =
     ((\<forall>t. (t \<in> set (runningThreads w)) = registered (tpc w t)) \<and>
      (\<forall>t. (threadHandle (heap w t) = 0) = (tpc w t = Idle)) \<and>
      (\<forall>t. threadId (heap w t) = 0 \<or> tpc w t \<noteq> Idle \<or> t \<in> set (exiting w)) \<and>
      distinct (runningThreads w) \<and>
      tpc w 0 = Idle \<and>
      finite {t. tpc w t \<noteq> Idle})"

definition initial_world :: "(nat \<Rightarrow> string) \<Rightarrow> world" where
  "initial_world names =
     \<lparr>heap = (\<lambda>a. Thread_new (names a)), runningThreads = [], tpc = (\<lambda>a. Idle),
      exiting = [], trace = [], clock = 0\<rparr>"

subsection \<open>The lifecycle, store by store\<close>

text \<open>
  Where a client stands in an operation on an instance that it cannot do in one step:
  between the return of \<^verbatim>\<open>juce_createThread\<close> and the store of the handle at line 127,
  or in the forced branch of \<^verbatim>\<open>stopThread\<close> after the call of line 202, after the
  store of line 203, or after the store of line 204 and before the removal of line 207.
  The \<^verbatim>\<open>startStopLock\<close> of the instance keeps a second client out meanwhile.
\<close>

datatype client_pc = Resting | Storing nat | Killed | HandleGone | IdGone


text \<open>
  The points of a lifecycle: what the stores and calls of the clients and the statements
  of the native threads, in any order, make of a world where every object has just been
  constructed. A world comes with the place of the client of every instance. An action
  that changes nothing but the trace, a change of the exit flag, of the cached priority or
  of the affinity mask, and a tick of the clock can happen at any point.
\<close>

inductive reachable :: "world \<Rightarrow> (nat \<Rightarrow> client_pc) \<Rightarrow> bool" where
  r_init: "reachable (initial_world names) (\<lambda>t. Resting)"
| r_note: "reachable w c \<Longrightarrow> reachable (emit Caller e w) c"
| r_flag: "reachable w c \<Longrightarrow> reachable (upd this (\<lambda>th. th\<lparr>threadShouldExit := b\<rparr>) w) c"
| r_priority:
    "reachable w c \<Longrightarrow> reachable (upd this (\<lambda>th. th\<lparr>threadPriority := priority\<rparr>) w) c"
| r_affinity: "reachable w c \<Longrightarrow> reachable (upd this (\<lambda>th. th\<lparr>affinityMask := m\<rparr>) w) c"
| r_clock: "reachable w c \<Longrightarrow> reachable (w\<lparr>clock := n\<rparr>) c"
| r_native: "reachable w c \<Longrightarrow> reachable (env_step P w i) c"
| r_create:
    "reachable w c \<Longrightarrow> this \<noteq> 0 \<Longrightarrow> c this = Resting \<Longrightarrow>
     threadHandle (heap w this) = 0 \<Longrightarrow>
     reachable (spawn this h (emit Caller (CreateThread this h) w)) (c(this := Storing h))"
| r_store:
    "reachable w c \<Longrightarrow> c this = Storing h \<Longrightarrow>
     reachable (upd this (\<lambda>th. th\<lparr>threadHandle := h\<rparr>) w) (c(this := Resting))"
| r_kill:
    "reachable w c \<Longrightarrow> c this = Resting \<Longrightarrow>
     reachable
       (kill_native (threadHandle (heap w this)) this
          (emit Caller (KillThread (threadHandle (heap w this))) w))
       (c(this := Killed))"
| r_kill_handle:
    "reachable w c \<Longrightarrow> c this = Killed \<Longrightarrow>
     reachable (upd this (\<lambda>th. th\<lparr>threadHandle := 0\<rparr>) w) (c(this := HandleGone))"
| r_kill_id:
    "reachable w c \<Longrightarrow> c this = HandleGone \<Longrightarrow>
     reachable (upd this (\<lambda>th. th\<lparr>threadId := 0\<rparr>) w) (c(this := IdGone))"
| r_kill_remove:
    "reachable w c \<Longrightarrow> c this = IdGone \<Longrightarrow>
     reachable (w\<lparr>runningThreads := VoidArray_removeValue (runningThreads w) this\<rparr>)
       (c(this := Resting))"


text \<open>
  A world inside the forced branch on an instance, after the call of line 202: the
  instance has no native thread, and but for its handle, its thread id and its entry in
  the registry the world is coherent.
\<close>

definition settled :: "nat \<Rightarrow> world \<Rightarrow> world" where
  "settled this w =
     w\<lparr>heap := (heap w)(this := (heap w this)\<lparr>threadHandle := 0, threadId := 0\<rparr>),
        runningThreads := remove1 this (runningThreads w)\<rparr>"

definition killed_coherent :: "nat \<Rightarrow> world \<Rightarrow> bool" where
  "killed_coherent this w = (tpc w this = Idle \<and> coherent (settled this w))"

subsection \<open>Reading a trace\<close>

text \<open>The world after \<open>k\<close> sleeps of the polling loop.\<close>

definition after_sleeps :: "platform \<Rightarrow> sched \<Rightarrow> nat \<Rightarrow> world \<Rightarrow> world" where
  "after_sleeps P S k w = ((sleep P S sleepMsPerIteration) ^^ k) w"

definition caller_actions :: "(actor \<times> action) list \<Rightarrow> action list" where
  "caller_actions tr = map snd (filter (\<lambda>x. fst x = Caller) tr)"

text \<open>The actions of the client between two worlds.\<close>

definition new_actions :: "world \<Rightarrow> world \<Rightarrow> action list" where
  "new_actions w w' = drop (length (caller_actions (trace w))) (caller_actions (trace w'))"

fun is_kill :: "action \<Rightarrow> bool" where
  "is_kill (KillThread h) = True"
| "is_kill e = False"

text \<open>Whether the client went through \<^verbatim>\<open>juce_killThread\<close> between two worlds.\<close>

definition escalated :: "world \<Rightarrow> world \<Rightarrow> bool" where
  "escalated w w' = list_ex is_kill (new_actions w w')"

text \<open>
  The world in which \<^verbatim>\<open>stopThread\<close> calls \<^verbatim>\<open>waitForThreadToExit\<close> on a thread that
  was running at line 186: after the assertion of line 182, the signal and the
  notification, with the turns of the others in between.
\<close>

definition stop_wait_call :: "platform \<Rightarrow> sched \<Rightarrow> nat \<Rightarrow> nat \<Rightarrow> world \<Rightarrow> world" where
  "stop_wait_call P S cid this w =
     (let w0 = jassert Caller (cid \<noteq> getThreadId this w) w;
          w1 = signalThreadShouldExit this (yield P S w0);
          w2 = notify this (yield P S w1)
      in yield P S w2)"

text \<open>The world of the first poll: when it waits at all, after the assertion of line 162.\<close>

definition stop_wait_entry ::
  "platform \<Rightarrow> sched \<Rightarrow> nat \<Rightarrow> int \<Rightarrow> nat \<Rightarrow> world \<Rightarrow> world" where
  "stop_wait_entry P S cid timeOutMilliseconds this w =
     (let w3 = stop_wait_call P S cid this w
      in if timeOutMilliseconds \<noteq> 0 then jassert Caller (getThreadId this w3 \<noteq> cid) w3
         else w3)"

text \<open>
  What a return of the polling loop says: it slept \<open>k\<close> times, the thread was running at
  each poll before the last, the result tells whether it had exited at the last, a
  positive timeout bounds \<open>k\<close> by the count, and \<open>false\<close> is returned only when a positive
  timeout has used the whole count.
\<close>

definition wait_post ::
  "platform \<Rightarrow> sched \<Rightarrow> int \<Rightarrow> nat \<Rightarrow> int \<Rightarrow> world \<Rightarrow> bool \<times> world \<Rightarrow> bool" where
  "wait_post P S tmo this c w r =
     ((0 < tmo \<longrightarrow> 0 \<le> c) \<longrightarrow>
      (\<exists>k. snd r = after_sleeps P S k w \<and>
           (\<forall>j<k. isThreadRunning this (after_sleeps P S j w)) \<and>
           fst r = (\<not> isThreadRunning this (snd r)) \<and>
           (0 < tmo \<longrightarrow> int k \<le> c) \<and>
           (\<not> fst r \<longrightarrow> 0 < tmo \<and> int k = c)))"



subsection \<open>A platform, worlds and schedules to run the code on\<close>

definition demo_platform :: platform where
  "demo_platform =
     \<lparr>juce_createThread = (\<lambda>this. this + 100),
      juce_setThreadPriority = (\<lambda>h p. 0 \<le> p \<and> p \<le> 10),
      getCurrentThreadId = (\<lambda>this. this + 200),
      JUCE_WIN32 = False,
      gate_signalled = (\<lambda>t. True),
      run_throws = (\<lambda>t. False)\<rparr>"

text \<open>A platform that refuses every change of priority.\<close>

definition strict_platform :: platform where
  "strict_platform = demo_platform\<lparr>juce_setThreadPriority := (\<lambda>h p. False)\<rparr>"

definition demo_idle :: world where
  "demo_idle = initial_world (\<lambda>a. ''worker'')"

text \<open>Instance 1 has been started and no native thread has run yet.\<close>

definition demo_started :: world where
  "demo_started = startThread demo_platform 1 demo_idle"

text \<open>Instance 1 is inside \<^verbatim>\<open>run()\<close>.\<close>

definition demo_running :: world where
  "demo_running = ((tramp_step demo_platform 1) ^^ 5) demo_started"




text \<open>The native threads never run: instance 1 ignores the request to exit.\<close>

definition sched_never :: sched where
  "sched_never k = []"

text \<open>
  In the fourth turn, which is the first sleep of a \<^verbatim>\<open>stopThread\<close>, \<^verbatim>\<open>run()\<close> of
  instance 1 returns and its native thread goes on up to line 91; it runs line 92 in the
  tenth turn.
\<close>

definition sched_late :: sched where
  "sched_late k =
     (if k = 3 then [Advance 1, Advance 1, Advance 1, Advance 1]
      else if k = 9 then [FinishExit 1] else [])"

text \<open>
  In the sixth turn, which in a \<^verbatim>\<open>stopThread\<close> with a timeout of 12 ms is the one
  between the return of the wait and the test of line 194, the native thread of instance
  1 runs to its end.
\<close>

definition sched_gap :: sched where
  "sched_gap k =
     (if k = 5 then [Advance 1, Advance 1, Advance 1, Advance 1, FinishExit 1] else [])"

text \<open>During the first sleep the native thread of instance 1 runs to its end.\<close>

definition sched_exit :: sched where
  "sched_exit k =
     (if k = 0 then [Advance 1, Advance 1, Advance 1, Advance 1, FinishExit 1] else [])"


subsection \<open>Parts of the code that the proofs name\<close>

text \<open>
  What a return of \<^verbatim>\<open>stopThread\<close> says: on a thread that was not running it only
  asserted; otherwise it polled \<open>k\<close> times from the world of the first poll, let the
  others run once more, and went through the forced branch when the thread was running at
  the test of line 194.
\<close>

definition stop_post :: "platform \<Rightarrow> sched \<Rightarrow> nat \<Rightarrow> int \<Rightarrow> nat \<Rightarrow> world \<Rightarrow> world \<Rightarrow> bool" where
  "stop_post P S cid tmo this w w' =
     (if isThreadRunning this w then
        (\<exists>k. (\<forall>j<k. isThreadRunning this (after_sleeps P S j (stop_wait_entry P S cid tmo this w))) \<and>
             (tmo = 0 \<longrightarrow> k = 0) \<and>
             (0 < tmo \<longrightarrow> int k \<le> cdiv tmo sleepMsPerIteration) \<and>
             (isThreadRunning this (after_sleeps P S k (stop_wait_entry P S cid tmo this w)) \<longrightarrow>
                tmo = 0 \<or> 0 < tmo \<and> int k = cdiv tmo sleepMsPerIteration) \<and>
             (tmo \<noteq> 0 \<longrightarrow>
                waitForThreadToExit P S cid tmo this (stop_wait_call P S cid this w) =
                  Some (\<not> isThreadRunning this
                            (after_sleeps P S k (stop_wait_entry P S cid tmo this w)),
                        after_sleeps P S k (stop_wait_entry P S cid tmo this w))) \<and>
             w' = (let w5 = yield P S (after_sleeps P S k (stop_wait_entry P S cid tmo this w))
                   in if isThreadRunning this w5 then force_kill P S this w5 else w5))
      else w' = jassert Caller (cid \<noteq> getThreadId this w) w)"

text \<open>The trampoline up to the removal from the registry, and from there to line 91.\<close>

definition te_mid :: "platform \<Rightarrow> nat \<Rightarrow> world \<Rightarrow> world" where
  "te_mid P thread w =
     te_deregister thread
       (snd (JUCE_TRY_CATCH_ALL_ASSERT (Native thread) (te_guarded P thread)
          (te_register thread w)))"

definition te_tail :: "platform \<Rightarrow> nat \<Rightarrow> world \<Rightarrow> world" where
  "te_tail P t w = te_clear_handle t (te_close_handle P t (te_deregister t w))"

text \<open>A platform whose start gate times out, and one whose user code throws.\<close>

definition timeout_platform :: platform where
  "timeout_platform = demo_platform\<lparr>gate_signalled := (\<lambda>t. False)\<rparr>"

definition throwing_platform :: platform where
  "throwing_platform = demo_platform\<lparr>run_throws := (\<lambda>t. True)\<rparr>"


section \<open>Lemmas\<close>

subsection \<open>Coherence is kept by every step\<close>

lemmas stmt_defs =
  upd_def emit_def jassert_def jassertfalse_def set_pc_def spawn_def kill_native_def
  VoidArray_add_def VoidArray_removeValue_def VoidArray_contains_def
  te_register_def te_capture_id_def te_apply_name_def te_wait_gate_def te_affinity_def
  te_run_def JUCE_TRY_CATCH_ALL_ASSERT_def te_deregister_def te_close_handle_def
  te_clear_handle_def te_clear_id_def

lemma finite_active_upd:
  "finite {t. f t \<noteq> Idle} \<Longrightarrow> finite {t. (f(a := p)) t \<noteq> Idle}"
  by (rule finite_subset [of _ "insert a {t. f t \<noteq> Idle}"]) auto

lemma finite_active_imp [simp]:
  "finite {t. t \<noteq> a \<longrightarrow> Q t} = finite {t. Q t}"
proof -
  have "{t. t \<noteq> a \<longrightarrow> Q t} = insert a {t. Q t}" by auto
  then show ?thesis by simp
qed

lemma finite_active_conj [simp]:
  "finite {t. Q t} \<Longrightarrow> finite {t. t \<noteq> a \<and> Q t}"
  by (rule finite_subset [of _ "{t. Q t}"]) auto

lemma finite_active_split [simp]:
  "finite {t. Q t} \<Longrightarrow> finite {t. (t = a \<longrightarrow> R) \<and> (t \<noteq> a \<longrightarrow> Q t)}"
  by (rule finite_subset [of _ "insert a {t. Q t}"]) auto


lemma coherent_tramp_step:
  assumes "coherent w"
  shows "coherent (tramp_step P t w)"
proof (cases "tpc w t = Idle")
  case True
  then show ?thesis using assms by (simp add: tramp_step_def)
next
  case False
  have "t \<noteq> 0"
  proof
    assume "t = 0"
    with assms have "tpc w t = Idle" by (simp add: coherent_def)
    with False show False by simp
  qed
  with assms False show ?thesis
    unfolding coherent_def tramp_step_def
    by (cases "tpc w t") (auto simp: stmt_defs Let_def split: if_splits)
qed

lemma coherent_exit_step: "coherent w \<Longrightarrow> coherent (exit_step t w)"
  by (auto simp: coherent_def exit_step_def stmt_defs)

lemma coherent_env_step: "coherent w \<Longrightarrow> coherent (env_step P w i)"
  by (cases i) (simp_all add: coherent_tramp_step coherent_exit_step)

lemma coherent_foldl_env: "coherent w \<Longrightarrow> coherent (foldl (env_step P) w is)"
  by (induction "is" arbitrary: w) (simp_all add: coherent_env_step)

lemma coherent_emit: "coherent (emit a e w) = coherent w"
  by (simp add: coherent_def emit_def)

lemma coherent_clock: "coherent (w\<lparr>clock := c\<rparr>) = coherent w"
  by (simp add: coherent_def)

lemma coherent_sleep: "coherent w \<Longrightarrow> coherent (sleep P S ms w)"
  by (simp add: sleep_def Let_def coherent_clock coherent_foldl_env coherent_emit)

lemma coherent_jassert: "coherent (jassert a b w) = coherent w"
  by (simp add: jassert_def coherent_emit)

lemma coherent_upd_other:
  "threadHandle (f (heap w t)) = threadHandle (heap w t) \<Longrightarrow>
   threadId (f (heap w t)) = threadId (heap w t) \<Longrightarrow> coherent (upd t f w) = coherent w"
  by (auto simp: coherent_def upd_def)

lemma coherent_signal: "coherent (signalThreadShouldExit t w) = coherent w"
  by (simp add: signalThreadShouldExit_def coherent_upd_other)

lemma coherent_notify: "coherent (notify t w) = coherent w"
  by (simp add: notify_def coherent_emit)

lemma coherent_affinity: "coherent (setAffinityMask m t w) = coherent w"
  by (simp add: setAffinityMask_def coherent_upd_other)

lemma coherent_setPriority: "coherent w \<Longrightarrow> coherent (snd (setPriority P p t w))"
  by (simp add: setPriority_def Let_def coherent_upd_other coherent_emit)

lemma coherent_startThread: "coherent w \<Longrightarrow> this \<noteq> 0 \<Longrightarrow> coherent (startThread P this w)"
  unfolding coherent_def startThread_def
  by (auto simp: stmt_defs Let_def finite_active_upd split: if_splits)

lemma coherent_startThread_priority:
  "coherent w \<Longrightarrow> this \<noteq> 0 \<Longrightarrow> coherent (startThread_priority P p this w)"
  unfolding startThread_priority_def
  by (simp add: coherent_setPriority coherent_startThread coherent_upd_other)

lemma coherent_yield: "coherent w \<Longrightarrow> coherent (yield P S w)"
  by (simp add: yield_def Let_def coherent_clock coherent_foldl_env)

lemma sleep_yield: "sleep P S ms w = yield P S (emit Caller (Sleep ms) w)"
  by (simp add: sleep_def yield_def Let_def)

subsection \<open>An instance without a native thread is left alone\<close>

lemma idle_tramp_step: "tpc w t = Idle \<Longrightarrow> tpc (tramp_step P u w) t = Idle"
  unfolding tramp_step_def
  by (cases "tpc w u") (auto simp: stmt_defs Let_def)

lemma idle_exit_step: "tpc (exit_step u w) t = tpc w t"
  by (simp add: exit_step_def stmt_defs)

lemma idle_env_step: "tpc w t = Idle \<Longrightarrow> tpc (env_step P w i) t = Idle"
  by (cases i) (simp_all add: idle_tramp_step idle_exit_step)




lemma handle_tramp_step:
  "tpc w t = Idle \<Longrightarrow> threadHandle (heap (tramp_step P u w) t) = threadHandle (heap w t)"
  unfolding tramp_step_def
  by (cases "tpc w u") (auto simp: stmt_defs Let_def)

lemma handle_env_step:
  "tpc w t = Idle \<Longrightarrow> threadHandle (heap (env_step P w i) t) = threadHandle (heap w t)"
  by (cases i) (simp_all add: handle_tramp_step exit_step_def stmt_defs)

lemma handle_foldl_env:
  "tpc w t = Idle \<Longrightarrow>
   threadHandle (heap (foldl (env_step P) w is) t) = threadHandle (heap w t)"
  by (induction "is" arbitrary: w) (simp_all add: handle_env_step idle_env_step)

lemma handle_yield:
  "tpc w t = Idle \<Longrightarrow> threadHandle (heap (yield P S w) t) = threadHandle (heap w t)"
  by (simp add: yield_def Let_def handle_foldl_env)

lemma id_tramp_step:
  "tpc w t = Idle \<Longrightarrow> threadId (heap (tramp_step P u w) t) = threadId (heap w t)"
  unfolding tramp_step_def
  by (cases "tpc w u") (auto simp: stmt_defs Let_def)

lemma id_env_step:
  "tpc w t = Idle \<Longrightarrow> threadId (heap w t) = 0 \<Longrightarrow> threadId (heap (env_step P w i) t) = 0"
  by (cases i) (simp_all add: id_tramp_step exit_step_def stmt_defs)

lemma id_foldl_env:
  "tpc w t = Idle \<Longrightarrow> threadId (heap w t) = 0 \<Longrightarrow>
   threadId (heap (foldl (env_step P) w is) t) = 0"
  by (induction "is" arbitrary: w) (simp_all add: id_env_step idle_env_step)

lemma id_yield:
  "tpc w t = Idle \<Longrightarrow> threadId (heap w t) = 0 \<Longrightarrow> threadId (heap (yield P S w) t) = 0"
  by (simp add: yield_def Let_def id_foldl_env)

subsection \<open>The forced branch\<close>

lemma settled_tramp_step:
  assumes "u \<noteq> this"
  shows "settled this (tramp_step P u w) = tramp_step P u (settled this w)"
  using assms unfolding tramp_step_def settled_def
  by (cases "tpc w u")
     (auto simp: stmt_defs Let_def remove1_append remove1_commute fun_upd_twist remove1_idem)

lemma kc_tramp_step:
  assumes "killed_coherent this w"
  shows "killed_coherent this (tramp_step P u w)"
proof (cases "u = this")
  case True
  with assms show ?thesis by (simp add: killed_coherent_def tramp_step_def)
next
  case False
  with assms show ?thesis
    by (simp add: killed_coherent_def settled_tramp_step coherent_tramp_step idle_tramp_step)
qed

lemma coherent_drop_exiting:
  "coherent w \<Longrightarrow> threadId (heap w u) = 0 \<Longrightarrow>
   coherent (w\<lparr>exiting := remove1 u (exiting w), trace := tr\<rparr>)"
  by (auto simp: coherent_def) (metis in_set_remove1)

lemma kc_exit_step:
  assumes "killed_coherent this w"
  shows "killed_coherent this (exit_step u w)"
proof (cases "u = this")
  case False
  then have "settled this (exit_step u w) = exit_step u (settled this w)"
    by (simp add: settled_def exit_step_def stmt_defs fun_upd_twist)
  with assms show ?thesis
    by (simp add: killed_coherent_def coherent_exit_step idle_exit_step)
next
  case True
  show ?thesis
  proof (cases "this \<in> set (exiting w)")
    case False
    with True assms show ?thesis by (simp add: exit_step_def)
  next
    case mem: True
    have "threadId (heap (settled this w) this) = 0" by (simp add: settled_def)
    moreover have "settled this (exit_step this w) =
        (settled this w)\<lparr>exiting := remove1 this (exiting (settled this w)),
           trace := trace w @ [(Native this, IdCleared)]\<rparr>"
      using mem by (simp add: settled_def exit_step_def stmt_defs)
    ultimately show ?thesis
      using assms True by (simp add: killed_coherent_def coherent_drop_exiting idle_exit_step)
  qed
qed

lemma kc_env_step: "killed_coherent this w \<Longrightarrow> killed_coherent this (env_step P w i)"
  by (cases i) (simp_all add: kc_tramp_step kc_exit_step)

lemma kc_foldl_env:
  "killed_coherent this w \<Longrightarrow> killed_coherent this (foldl (env_step P) w is)"
  by (induction "is" arbitrary: w) (simp_all add: kc_env_step)

lemma kc_clock: "killed_coherent this (w\<lparr>clock := n\<rparr>) = killed_coherent this w"
  by (simp add: killed_coherent_def settled_def coherent_def)

lemma kc_yield: "killed_coherent this w \<Longrightarrow> killed_coherent this (yield P S w)"
  by (simp add: yield_def Let_def kc_clock kc_foldl_env)

lemma kc_emit: "killed_coherent this (emit a e w) = killed_coherent this w"
  by (simp add: killed_coherent_def settled_def coherent_def emit_def)

lemma kc_clear:
  "killed_coherent this (upd this (\<lambda>th. th\<lparr>threadHandle := 0\<rparr>) w) = killed_coherent this w"
  "killed_coherent this (upd this (\<lambda>th. th\<lparr>threadId := 0\<rparr>) w) = killed_coherent this w"
  by (simp_all add: killed_coherent_def settled_def upd_def)

lemma kc_kill:
  assumes "coherent w"
  shows "killed_coherent this (kill_native (threadHandle (heap w this)) this w)"
proof -
  let ?v = "kill_native (threadHandle (heap w this)) this w"
  have idle: "tpc ?v this = Idle"
    using assms by (auto simp: kill_native_def coherent_def)
  have tpc: "tpc ?v = (tpc w)(this := Idle)"
    using assms by (auto simp: kill_native_def coherent_def)
  have "finite {t. tpc w t \<noteq> Idle}" using assms by (simp add: coherent_def)
  moreover have "{t. tpc (settled this ?v) t \<noteq> Idle} \<subseteq> {t. tpc w t \<noteq> Idle}"
    by (auto simp: settled_def tpc)
  ultimately have fin: "finite {t. tpc (settled this ?v) t \<noteq> Idle}"
    by (rule rev_finite_subset)
  have rest: "(\<forall>t. (t \<in> set (runningThreads (settled this ?v))) = registered (tpc (settled this ?v) t))
    \<and> (\<forall>t. (threadHandle (heap (settled this ?v) t) = 0) = (tpc (settled this ?v) t = Idle))
    \<and> (\<forall>t. threadId (heap (settled this ?v) t) = 0 \<or> tpc (settled this ?v) t \<noteq> Idle
           \<or> t \<in> set (exiting (settled this ?v)))
    \<and> distinct (runningThreads (settled this ?v)) \<and> tpc (settled this ?v) 0 = Idle"
  proof -
    have nz: "0 < t" if "registered (tpc w t)" for t
    proof (cases "t = 0")
      case True
      with assms that show ?thesis by (simp add: coherent_def)
    qed simp
    show ?thesis
      using assms nz by (auto simp: settled_def kill_native_def coherent_def)
  qed
  from idle fin rest show ?thesis by (simp add: killed_coherent_def coherent_def)
qed

lemma kc_finish:
  assumes "killed_coherent this w"
    and "threadHandle (heap w this) = 0" and "threadId (heap w this) = 0"
  shows "coherent (w\<lparr>runningThreads := remove1 this (runningThreads w)\<rparr>)"
proof -
  have "(heap w this)\<lparr>threadHandle := 0, threadId := 0\<rparr> = heap w this"
    using assms(2,3) by simp
  then have "settled this w = w\<lparr>runningThreads := remove1 this (runningThreads w)\<rparr>"
    by (simp add: settled_def)
  with assms(1) show ?thesis by (simp add: killed_coherent_def)
qed

text \<open>The worlds of the forced branch, one after the other.\<close>

lemma force_kill_post:
  assumes "coherent w"
  shows "coherent (force_kill P S this w)"
    and "threadHandle (heap (force_kill P S this w) this) = 0"
    and "threadId (heap (force_kill P S this w) this) = 0"
    and "this \<notin> set (runningThreads (force_kill P S this w))"
proof -
  let ?w3 = "yield P S (emit Caller (LogMessage ''!! killing thread by force !!'')
               (jassertfalse Caller w))"
  let ?h = "threadHandle (heap ?w3 this)"
  let ?w4 = "kill_native ?h this (emit Caller (KillThread ?h) ?w3)"
  let ?w5 = "upd this (\<lambda>th. th\<lparr>threadHandle := 0\<rparr>) (yield P S ?w4)"
  let ?w6 = "upd this (\<lambda>th. th\<lparr>threadId := 0\<rparr>) (yield P S ?w5)"
  let ?w7 = "yield P S ?w6"
  let ?w8 = "?w7\<lparr>runningThreads := remove1 this (runningThreads ?w7)\<rparr>"
  have c3: "coherent (emit Caller (KillThread ?h) ?w3)"
    using assms by (simp add: coherent_emit coherent_yield jassertfalse_def)
  have h3: "threadHandle (heap (emit Caller (KillThread ?h) ?w3) this) = ?h"
    by (simp add: emit_def)
  have k4: "killed_coherent this ?w4" using kc_kill [OF c3, of this] by (simp only: h3)
  then have k5: "killed_coherent this ?w5" by (simp add: kc_clear kc_yield)
  then have k6: "killed_coherent this ?w6" by (simp add: kc_clear kc_yield)
  then have k7: "killed_coherent this ?w7" by (rule kc_yield)
  have i5: "tpc ?w5 this = Idle" using k5 by (simp add: killed_coherent_def)
  have i6: "tpc ?w6 this = Idle" using k6 by (simp add: killed_coherent_def)
  have h5: "threadHandle (heap ?w5 this) = 0" by (simp add: upd_def)
  have h6: "threadHandle (heap ?w6 this) = 0"
    using handle_yield [OF i5, of P S] h5 by (simp add: upd_def)
  have h7: "threadHandle (heap ?w7 this) = 0"
    using handle_yield [OF i6, of P S] h6 by simp
  have d6: "threadId (heap ?w6 this) = 0" by (simp add: upd_def)
  have d7: "threadId (heap ?w7 this) = 0" by (rule id_yield [OF i6 d6])
  have c8: "coherent ?w8" by (rule kc_finish [OF k7 h7 d7])
  have eq: "force_kill P S this w =
      emit Caller LockExit (emit Caller (RegistryRemove this)
        ((emit Caller LockEnter ?w7)
           \<lparr>runningThreads := remove1 this (runningThreads (emit Caller LockEnter ?w7))\<rparr>))"
    by (simp add: force_kill_def Let_def VoidArray_removeValue_def)
  have f: "heap (force_kill P S this w) = heap ?w8"
    "runningThreads (force_kill P S this w) = runningThreads ?w8"
    "tpc (force_kill P S this w) = tpc ?w8"
    "exiting (force_kill P S this w) = exiting ?w8"
    by (simp_all add: eq emit_def)
  from c8 show "coherent (force_kill P S this w)"
    by (simp add: coherent_def f)
  show "threadHandle (heap (force_kill P S this w) this) = 0" using h7 by (simp add: f)
  show "threadId (heap (force_kill P S this w) this) = 0" using d7 by (simp add: f)
  have "tpc ?w8 this = Idle" using k7 by (simp add: killed_coherent_def)
  with c8 have "this \<notin> set (runningThreads ?w8)" by (simp add: coherent_def)
  then show "this \<notin> set (runningThreads (force_kill P S this w))"
    by (simp add: f)
qed


subsection \<open>The polling loop\<close>

lemma after_sleeps_0 [simp]: "after_sleeps P S 0 w = w"
  by (simp add: after_sleeps_def)

lemma after_sleeps_Suc: "after_sleeps P S (Suc k) w = after_sleeps P S k (sleep P S sleepMsPerIteration w)"
  by (simp add: after_sleeps_def funpow_swap1)

lemma after_sleeps_Suc': "after_sleeps P S (Suc k) w = sleep P S sleepMsPerIteration (after_sleeps P S k w)"
  by (simp add: after_sleeps_def)

lemma coherent_after_sleeps: "coherent w \<Longrightarrow> coherent (after_sleeps P S k w)"
  by (induction k) (simp_all add: after_sleeps_Suc' coherent_sleep)

lemma wait_loop_Some:
  assumes "wait_loop P S tmo this c w = Some r"
  shows "wait_post P S tmo this c w r"
proof -
  let ?Q = "\<lambda>x r. case x of (((((P, S), tmo), this), c), w) \<Rightarrow> wait_post P S tmo this c w r"
  have "?Q (((((P, S), tmo), this), c), w) r"
  proof (rule wait_loop.raw_induct [where Pa = ?Q, OF _ assms])
    fix f :: "platform \<Rightarrow> sched \<Rightarrow> int \<Rightarrow> nat \<Rightarrow> int \<Rightarrow> world \<Rightarrow> (bool \<times> world) option"
    fix P S tmo this c w r
    assume IH: "\<And>P S tmo this c w y. f P S tmo this c w = Some y \<Longrightarrow>
                  ?Q (((((P, S), tmo), this), c), w) y"
    assume eq: "(if isThreadRunning this w
      then if 0 < tmo
           then if c - 1 < 0 then Some (False, w)
                else f P S tmo this (c - 1) (sleep P S sleepMsPerIteration w)
           else f P S tmo this c (sleep P S sleepMsPerIteration w)
      else Some (True, w)) = Some r"
    have step: "wait_post P S tmo this c w r"
      if run: "isThreadRunning this w"
        and rec: "wait_post P S tmo this c' (sleep P S sleepMsPerIteration w) r"
        and c': "if 0 < tmo then c' = c - 1 \<and> 0 \<le> c' else c' = c" for c'
      unfolding wait_post_def
    proof
      assume "0 < tmo \<longrightarrow> 0 \<le> c"
      from c' have "0 < tmo \<longrightarrow> 0 \<le> c'" by (simp split: if_splits)
      with rec obtain k where k:
        "snd r = after_sleeps P S k (sleep P S sleepMsPerIteration w)"
        "\<forall>j<k. isThreadRunning this (after_sleeps P S j (sleep P S sleepMsPerIteration w))"
        "fst r = (\<not> isThreadRunning this (snd r))"
        "0 < tmo \<longrightarrow> int k \<le> c'"
        "\<not> fst r \<longrightarrow> 0 < tmo \<and> int k = c'"
        unfolding wait_post_def by blast
      have "\<forall>j<Suc k. isThreadRunning this (after_sleeps P S j w)"
      proof (intro allI impI)
        fix j assume "j < Suc k"
        then show "isThreadRunning this (after_sleeps P S j w)"
          using run k(2) by (cases j) (simp_all add: after_sleeps_Suc)
      qed
      moreover have "snd r = after_sleeps P S (Suc k) w"
        using k(1) by (simp add: after_sleeps_Suc)
      moreover have "0 < tmo \<longrightarrow> int (Suc k) \<le> c"
        using k(4) c' by (simp split: if_splits)
      moreover have "\<not> fst r \<longrightarrow> 0 < tmo \<and> int (Suc k) = c"
        using k(5) c' by (auto split: if_splits)
      ultimately show "\<exists>k. snd r = after_sleeps P S k w \<and>
           (\<forall>j<k. isThreadRunning this (after_sleeps P S j w)) \<and>
           fst r = (\<not> isThreadRunning this (snd r)) \<and>
           (0 < tmo \<longrightarrow> int k \<le> c) \<and>
           (\<not> fst r \<longrightarrow> 0 < tmo \<and> int k = c)"
        using k(3) by blast
    qed
    have "wait_post P S tmo this c w r"
    proof (cases "isThreadRunning this w")
      case False
      with eq have "r = (True, w)" by simp
      with False show ?thesis
        unfolding wait_post_def by (auto intro!: exI [of _ 0])
    next
      case run: True
      show ?thesis
      proof (cases "0 < tmo")
        case pos: True
        show ?thesis
        proof (cases "c - 1 < 0")
          case True
          with eq run pos have "r = (False, w)" by simp
          with run pos True show ?thesis
            unfolding wait_post_def by (auto intro!: exI [of _ 0])
        next
          case False
          with eq run pos have "f P S tmo this (c - 1) (sleep P S sleepMsPerIteration w) = Some r"
            by simp
          from IH [OF this] have "wait_post P S tmo this (c - 1) (sleep P S sleepMsPerIteration w) r"
            by simp
          then show ?thesis using run pos False by (intro step [of "c - 1"]) simp_all
        qed
      next
        case False
        with eq run have "f P S tmo this c (sleep P S sleepMsPerIteration w) = Some r"
          by simp
        from IH [OF this] have "wait_post P S tmo this c (sleep P S sleepMsPerIteration w) r"
          by simp
        then show ?thesis using run False by (intro step [of c]) simp_all
      qed
    qed
    then show "?Q (((((P, S), tmo), this), c), w) r" by simp
  qed
  then show ?thesis by simp
qed

lemma wait_loop_exits:
  "\<not> isThreadRunning this (after_sleeps P S k w) \<Longrightarrow> (0 < tmo \<longrightarrow> int k \<le> c) \<Longrightarrow>
   \<exists>w'. wait_loop P S tmo this c w = Some (True, w')"
proof (induction k arbitrary: c w)
  case 0
  then show ?case by (subst wait_loop.simps) simp
next
  case (Suc k)
  show ?case
  proof (cases "isThreadRunning this w")
    case False
    then show ?thesis by (subst wait_loop.simps) simp
  next
    case True
    from Suc.prems(1) have a: "\<not> isThreadRunning this (after_sleeps P S k (sleep P S sleepMsPerIteration w))"
      by (simp add: after_sleeps_Suc)
    show ?thesis
    proof (cases "0 < tmo")
      case pos: True
      with Suc.prems(2) have b: "0 < tmo \<longrightarrow> int k \<le> c - 1" by simp
      from Suc.IH [OF a b] obtain w' where
        "wait_loop P S tmo this (c - 1) (sleep P S sleepMsPerIteration w) = Some (True, w')" ..
      moreover from pos Suc.prems(2) have "\<not> c - 1 < 0" by simp
      ultimately show ?thesis using True pos by (subst wait_loop.simps) simp
    next
      case False
      then have b: "0 < tmo \<longrightarrow> int k \<le> c" by simp
      from Suc.IH [OF a b] obtain w' where
        "wait_loop P S tmo this c (sleep P S sleepMsPerIteration w) = Some (True, w')" ..
      then show ?thesis using True False by (subst wait_loop.simps) simp
    qed
  qed
qed

lemma wait_loop_returns:
  "0 < tmo \<Longrightarrow> c = int n \<Longrightarrow> \<exists>r. wait_loop P S tmo this c w = Some r"
proof (induction n arbitrary: c w)
  case 0
  then show ?case by (subst wait_loop.simps) auto
next
  case (Suc n)
  from Suc.prems have "c - 1 = int n" by simp
  from Suc.IH [OF Suc.prems(1) this]
  obtain r where "wait_loop P S tmo this (c - 1) (sleep P S sleepMsPerIteration w) = Some r" ..
  then show ?case using Suc.prems by (subst wait_loop.simps) auto
qed

subsection \<open>The actions of a client\<close>

lemma ca_emit_Caller: "caller_actions (trace (emit Caller e w)) = caller_actions (trace w) @ [e]"
  by (simp add: caller_actions_def emit_def)

lemma ca_emit_Native: "caller_actions (trace (emit (Native t) e w)) = caller_actions (trace w)"
  by (simp add: caller_actions_def emit_def)

lemma ca_tramp_step: "caller_actions (trace (tramp_step P t w)) = caller_actions (trace w)"
  unfolding tramp_step_def
  by (cases "tpc w t") (simp_all add: stmt_defs Let_def caller_actions_def)

lemma ca_exit_step: "caller_actions (trace (exit_step t w)) = caller_actions (trace w)"
  by (simp add: exit_step_def stmt_defs caller_actions_def)

lemma ca_env_step: "caller_actions (trace (env_step P w i)) = caller_actions (trace w)"
  by (cases i) (simp_all add: ca_tramp_step ca_exit_step)

lemma ca_foldl_env: "caller_actions (trace (foldl (env_step P) w is)) = caller_actions (trace w)"
  by (induction "is" arbitrary: w) (simp_all add: ca_env_step)

lemma ca_sleep: "caller_actions (trace (sleep P S ms w)) = caller_actions (trace w) @ [Sleep ms]"
  by (simp add: sleep_def Let_def ca_foldl_env ca_emit_Caller)

lemma ca_yield: "caller_actions (trace (yield P S w)) = caller_actions (trace w)"
  by (simp add: yield_def Let_def ca_foldl_env)

lemma ca_after_sleeps:
  "caller_actions (trace (after_sleeps P S k w)) =
     caller_actions (trace w) @ replicate k (Sleep sleepMsPerIteration)"
  by (induction k) (simp_all add: after_sleeps_Suc' ca_sleep replicate_append_same)

lemma ca_force_kill:
  "\<exists>h. caller_actions (trace (force_kill P S this w)) =
     caller_actions (trace w) @
       [AssertFailed, LogMessage ''!! killing thread by force !!'',
        KillThread h, LockEnter, RegistryRemove this, LockExit]"
proof -
  have upd: "caller_actions (trace (upd t f v)) = caller_actions (trace v)" for t f v
    by (simp add: upd_def)
  have kill: "caller_actions (trace (kill_native h t v)) = caller_actions (trace v)" for h t v
    by (simp add: kill_native_def)
  have reg: "caller_actions (trace (v\<lparr>runningThreads := r\<rparr>)) = caller_actions (trace v)"
    for v r by simp
  show ?thesis
    by (rule exI)
       (simp add: force_kill_def Let_def jassertfalse_def ca_emit_Caller ca_yield upd kill reg)
qed

lemma ca_jassert:
  "caller_actions (trace (jassert Caller b w)) =
     caller_actions (trace w) @ (if b then [] else [AssertFailed])"
  by (simp add: jassert_def ca_emit_Caller)

lemma ca_stop_wait_call:
  "caller_actions (trace (stop_wait_call P S cid this w)) =
     caller_actions (trace w) @ (if cid \<noteq> getThreadId this w then [] else [AssertFailed])
       @ [Notify this]"
  by (simp add: stop_wait_call_def Let_def ca_yield notify_def ca_emit_Caller ca_jassert
      signalThreadShouldExit_def upd_def)

lemma ca_stop_wait_entry:
  "caller_actions (trace (stop_wait_entry P S cid tmo this w)) =
     caller_actions (trace w) @ (if cid \<noteq> getThreadId this w then [] else [AssertFailed])
       @ [Notify this]
       @ (if tmo \<noteq> 0 \<and> getThreadId this (stop_wait_call P S cid this w) = cid
          then [AssertFailed] else [])"
  by (simp add: stop_wait_entry_def Let_def ca_jassert ca_stop_wait_call)

lemma running_jassert [simp]: "isThreadRunning this (jassert a b w) = isThreadRunning this w"
  by (simp add: isThreadRunning_def jassert_def emit_def)

lemma running_signal [simp]:
  "isThreadRunning this (signalThreadShouldExit t w) = isThreadRunning this w"
  by (simp add: isThreadRunning_def signalThreadShouldExit_def upd_def)

lemma running_notify [simp]: "isThreadRunning this (notify t w) = isThreadRunning this w"
  by (simp add: isThreadRunning_def notify_def emit_def)

subsection \<open>A null handle stays null while no client starts the thread\<close>

lemma null_tramp_step:
  "threadHandle (heap w t) = 0 \<Longrightarrow> threadHandle (heap (tramp_step P u w) t) = 0"
  unfolding tramp_step_def
  by (cases "tpc w u") (auto simp: stmt_defs Let_def)

lemma null_env_step:
  "threadHandle (heap w t) = 0 \<Longrightarrow> threadHandle (heap (env_step P w i) t) = 0"
  by (cases i) (auto simp: null_tramp_step exit_step_def stmt_defs)

lemma null_foldl_env:
  "threadHandle (heap w t) = 0 \<Longrightarrow> threadHandle (heap (foldl (env_step P) w is) t) = 0"
  by (induction "is" arbitrary: w) (simp_all add: null_env_step)

lemma stopped_yield: "\<not> isThreadRunning t w \<Longrightarrow> \<not> isThreadRunning t (yield P S w)"
  by (simp add: isThreadRunning_def yield_def Let_def null_foldl_env)

lemma stopped_sleep: "\<not> isThreadRunning t w \<Longrightarrow> \<not> isThreadRunning t (sleep P S ms w)"
proof -
  assume "\<not> isThreadRunning t w"
  then have "\<not> isThreadRunning t (emit Caller (Sleep ms) w)"
    by (simp add: isThreadRunning_def emit_def)
  then show ?thesis
    unfolding sleep_yield by (rule stopped_yield)
qed

lemma force_kill_stopped: "\<not> isThreadRunning this (force_kill P S this w)"
proof -
  have "\<not> isThreadRunning this (upd this (\<lambda>th. th\<lparr>threadHandle := 0\<rparr>) v)" for v
    by (simp add: isThreadRunning_def upd_def)
  then have "\<not> isThreadRunning this (yield P S (upd this (\<lambda>th. th\<lparr>threadHandle := 0\<rparr>) v))"
    for v by (rule stopped_yield)
  then have "\<not> isThreadRunning this
      (upd this (\<lambda>th. th\<lparr>threadId := 0\<rparr>)
         (yield P S (upd this (\<lambda>th. th\<lparr>threadHandle := 0\<rparr>) v)))" for v
    by (simp add: isThreadRunning_def upd_def)
  then have a: "\<not> isThreadRunning this
      (yield P S (upd this (\<lambda>th. th\<lparr>threadId := 0\<rparr>)
         (yield P S (upd this (\<lambda>th. th\<lparr>threadHandle := 0\<rparr>) v))))" for v
    by (rule stopped_yield)
  show ?thesis
    using a by (simp add: force_kill_def Let_def isThreadRunning_def emit_def VoidArray_removeValue_def)
qed

subsection \<open>What stopThread returns\<close>

lemma cdiv_nonneg: "0 < a \<Longrightarrow> 0 \<le> cdiv a sleepMsPerIteration"
  by (simp add: cdiv_def sleepMsPerIteration_def)

lemma stopThread_unfold:
  "stopThread P S cid tmo this w =
     (if isThreadRunning this w then
        Option.bind
          (if tmo \<noteq> 0
           then map_option snd
                  (wait_loop P S tmo this (cdiv tmo sleepMsPerIteration)
                     (stop_wait_entry P S cid tmo this w))
           else Some (stop_wait_entry P S cid tmo this w))
          (\<lambda>w4. Some (if isThreadRunning this (yield P S w4)
                      then force_kill P S this (yield P S w4) else yield P S w4))
      else Some (jassert Caller (cid \<noteq> getThreadId this w) w))"
  by (simp add: stopThread_def Let_def stop_wait_entry_def stop_wait_call_def
      waitForThreadToExit_def)

lemma wait_in_stop:
  "tmo \<noteq> 0 \<Longrightarrow>
   waitForThreadToExit P S cid tmo this (stop_wait_call P S cid this w) =
     wait_loop P S tmo this (cdiv tmo sleepMsPerIteration) (stop_wait_entry P S cid tmo this w)"
  by (simp add: waitForThreadToExit_def stop_wait_entry_def Let_def)

lemma stopThread_Some:
  assumes "stopThread P S cid tmo this w = Some w'"
  shows "stop_post P S cid tmo this w w'"
proof (cases "isThreadRunning this w")
  case False
  with assms show ?thesis by (simp add: stopThread_unfold stop_post_def)
next
  case run: True
  let ?E = "stop_wait_entry P S cid tmo this w"
  show ?thesis
  proof (cases "tmo = 0")
    case True
    with assms run have "w' = (if isThreadRunning this (yield P S ?E)
        then force_kill P S this (yield P S ?E) else yield P S ?E)"
      by (auto simp: stopThread_unfold)
    with run True show ?thesis
      unfolding stop_post_def by (auto intro!: exI [of _ 0] simp: Let_def split: if_splits)
  next
    case False
    with assms run obtain r where
      r: "wait_loop P S tmo this (cdiv tmo sleepMsPerIteration) ?E = Some r"
      and w': "w' = (if isThreadRunning this (yield P S (snd r))
                     then force_kill P S this (yield P S (snd r)) else yield P S (snd r))"
      by (auto simp: stopThread_unfold bind_eq_Some_conv)
    from wait_loop_Some [OF r] cdiv_nonneg [of tmo]
    obtain k where k:
      "snd r = after_sleeps P S k ?E"
      "\<forall>j<k. isThreadRunning this (after_sleeps P S j ?E)"
      "fst r = (\<not> isThreadRunning this (snd r))"
      "0 < tmo \<longrightarrow> int k \<le> cdiv tmo sleepMsPerIteration"
      "\<not> fst r \<longrightarrow> 0 < tmo \<and> int k = cdiv tmo sleepMsPerIteration"
      unfolding wait_post_def by blast
    have "r = (\<not> isThreadRunning this (after_sleeps P S k ?E), after_sleeps P S k ?E)"
      using k(1,3) by (cases r) simp
    with r False have
      "waitForThreadToExit P S cid tmo this (stop_wait_call P S cid this w) =
         Some (\<not> isThreadRunning this (after_sleeps P S k ?E), after_sleeps P S k ?E)"
      by (simp add: wait_in_stop)
    with w' run False k show ?thesis
      unfolding stop_post_def by (auto intro!: exI [of _ k] simp: Let_def)
  qed
qed

lemma stopThread_returns:
  assumes "0 \<le> tmo"
  shows "\<exists>w'. stopThread P S cid tmo this w = Some w'"
proof (cases "tmo = 0")
  case True
  then show ?thesis by (simp add: stopThread_unfold)
next
  case False
  with assms have "0 < tmo" by simp
  from wait_loop_returns [OF this, of "cdiv tmo sleepMsPerIteration" "nat (cdiv tmo sleepMsPerIteration)"]
    cdiv_nonneg [OF this]
  have "\<exists>r. wait_loop P S tmo this (cdiv tmo sleepMsPerIteration) w0 = Some r" for w0
    by simp
  then obtain r where
    "wait_loop P S tmo this (cdiv tmo sleepMsPerIteration) (stop_wait_entry P S cid tmo this w) = Some r"
    by blast
  with False show ?thesis
    by (simp add: stopThread_unfold)
qed

lemma stopThread_cases [consumes 1, case_names idle exited killed]:
  assumes "stopThread P S cid tmo this w = Some w'"
  obtains
    (idle) "\<not> isThreadRunning this w" "w' = jassert Caller (cid \<noteq> getThreadId this w) w"
  | (exited) k where "isThreadRunning this w"
      "w' = yield P S (after_sleeps P S k (stop_wait_entry P S cid tmo this w))"
      "\<not> isThreadRunning this w'"
      "0 < tmo \<longrightarrow> int k \<le> cdiv tmo sleepMsPerIteration"
      "isThreadRunning this (after_sleeps P S k (stop_wait_entry P S cid tmo this w)) \<longrightarrow>
         tmo = 0 \<or> 0 < tmo \<and> int k = cdiv tmo sleepMsPerIteration"
      "tmo \<noteq> 0 \<longrightarrow>
         waitForThreadToExit P S cid tmo this (stop_wait_call P S cid this w) =
           Some (\<not> isThreadRunning this
                     (after_sleeps P S k (stop_wait_entry P S cid tmo this w)),
                 after_sleeps P S k (stop_wait_entry P S cid tmo this w))"
  | (killed) k where "isThreadRunning this w"
      "w' = force_kill P S this
              (yield P S (after_sleeps P S k (stop_wait_entry P S cid tmo this w)))"
      "isThreadRunning this
         (yield P S (after_sleeps P S k (stop_wait_entry P S cid tmo this w)))"
      "\<forall>j<k. isThreadRunning this (after_sleeps P S j (stop_wait_entry P S cid tmo this w))"
      "tmo = 0 \<longrightarrow> k = 0"
      "isThreadRunning this (after_sleeps P S k (stop_wait_entry P S cid tmo this w)) \<longrightarrow>
         tmo = 0 \<or> 0 < tmo \<and> int k = cdiv tmo sleepMsPerIteration"
      "tmo \<noteq> 0 \<longrightarrow>
         waitForThreadToExit P S cid tmo this (stop_wait_call P S cid this w) =
           Some (\<not> isThreadRunning this
                     (after_sleeps P S k (stop_wait_entry P S cid tmo this w)),
                 after_sleeps P S k (stop_wait_entry P S cid tmo this w))"
proof (cases "isThreadRunning this w")
  case False
  with stopThread_Some [OF assms] idle show ?thesis by (simp add: stop_post_def)
next
  case True
  let ?E = "stop_wait_entry P S cid tmo this w"
  from stopThread_Some [OF assms] True obtain k where k:
    "\<forall>j<k. isThreadRunning this (after_sleeps P S j ?E)"
    "tmo = 0 \<longrightarrow> k = 0"
    "isThreadRunning this (after_sleeps P S k ?E) \<longrightarrow>
       tmo = 0 \<or> 0 < tmo \<and> int k = cdiv tmo sleepMsPerIteration"
    "0 < tmo \<longrightarrow> int k \<le> cdiv tmo sleepMsPerIteration"
    "tmo \<noteq> 0 \<longrightarrow>
       waitForThreadToExit P S cid tmo this (stop_wait_call P S cid this w) =
         Some (\<not> isThreadRunning this (after_sleeps P S k ?E), after_sleeps P S k ?E)"
    "w' = (if isThreadRunning this (yield P S (after_sleeps P S k ?E))
           then force_kill P S this (yield P S (after_sleeps P S k ?E))
           else yield P S (after_sleeps P S k ?E))"
    unfolding stop_post_def Let_def by auto
  show ?thesis
  proof (cases "isThreadRunning this (yield P S (after_sleeps P S k ?E))")
    case run: True
    with killed [of k] True k show ?thesis by simp
  next
    case False
    with exited [of k] True k show ?thesis by simp
  qed
qed

lemma stopThread_stopped:
  assumes "stopThread P S cid tmo this w = Some w'"
  shows "\<not> isThreadRunning this w'"
  using assms by (cases rule: stopThread_cases) (simp_all add: force_kill_stopped)

lemma coherent_stop_wait_call: "coherent w \<Longrightarrow> coherent (stop_wait_call P S cid this w)"
  by (simp add: stop_wait_call_def Let_def coherent_jassert coherent_notify coherent_signal
      coherent_yield)

lemma coherent_stop_wait_entry:
  "coherent w \<Longrightarrow> coherent (stop_wait_entry P S cid tmo this w)"
  by (simp add: stop_wait_entry_def Let_def coherent_jassert coherent_stop_wait_call)

lemma coherent_stopThread:
  assumes "stopThread P S cid tmo this w = Some w'" and "coherent w"
  shows "coherent w'"
  using assms
  by (cases rule: stopThread_cases)
     (simp_all add: coherent_jassert force_kill_post coherent_after_sleeps coherent_yield
        coherent_stop_wait_entry)

lemma coherent_not_member:
  "coherent w \<Longrightarrow> \<not> isThreadRunning this w \<Longrightarrow> this \<notin> set (runningThreads w)"
  by (auto simp: coherent_def isThreadRunning_def)

subsection \<open>The loop of stopAllThreads\<close>

lemma coherent_initial: "coherent (initial_world names)"
  by (simp add: coherent_def initial_world_def Thread_new_def)


















subsection \<open>The invariant of the lifecycle\<close>

lemma registered_not_AtRegister: "registered p \<Longrightarrow> p \<noteq> AtRegister"
  by (cases p) simp_all





subsection \<open>The operations of a client stay within the lifecycle\<close>



lemma reachable_foldl_env: "reachable w c \<Longrightarrow> reachable (foldl (env_step P) w is) c"
  by (induction "is" arbitrary: w) (simp_all add: r_native)

lemma reachable_yield: "reachable w c \<Longrightarrow> reachable (yield P S w) c"
  by (simp add: yield_def Let_def r_clock reachable_foldl_env)

lemma reachable_sleep: "reachable w c \<Longrightarrow> reachable (sleep P S ms w) c"
  by (simp add: sleep_yield reachable_yield r_note)

lemma reachable_after_sleeps: "reachable w c \<Longrightarrow> reachable (after_sleeps P S k w) c"
  by (induction k) (simp_all add: after_sleeps_Suc' reachable_sleep)

lemma reachable_jassert: "reachable w c \<Longrightarrow> reachable (jassert Caller b w) c"
  by (simp add: jassert_def r_note)

lemma reachable_signal: "reachable w c \<Longrightarrow> reachable (signalThreadShouldExit this w) c"
  by (simp add: signalThreadShouldExit_def r_flag)

lemma reachable_notify: "reachable w c \<Longrightarrow> reachable (notify this w) c"
  by (simp add: notify_def r_note)

lemma reachable_setAffinityMask: "reachable w c \<Longrightarrow> reachable (setAffinityMask m this w) c"
  by (simp add: setAffinityMask_def r_affinity)

lemma reachable_setPriority: "reachable w c \<Longrightarrow> reachable (snd (setPriority P p this w)) c"
  by (simp add: setPriority_def Let_def r_note r_priority)

lemma reachable_startThread:
  assumes "reachable w c" "c this = Resting" "this \<noteq> 0"
  shows "reachable (startThread P this w) c"
proof -
  let ?w1 = "upd this (\<lambda>th. th\<lparr>threadShouldExit := False\<rparr>) w"
  let ?h = "juce_createThread P this"
  have 1: "reachable ?w1 c" by (rule r_flag [OF assms(1)])
  show ?thesis
  proof (cases "threadHandle (heap ?w1 this) = 0")
    case False
    with 1 show ?thesis by (simp add: startThread_def Let_def)
  next
    case True
    from r_create [OF 1 assms(3,2) True, of ?h]
    have "reachable (spawn this ?h (emit Caller (CreateThread this ?h) ?w1)) (c(this := Storing ?h))" .
    from r_store [OF this, of this ?h] assms(2)
    have "reachable (upd this (\<lambda>th. th\<lparr>threadHandle := ?h\<rparr>)
             (spawn this ?h (emit Caller (CreateThread this ?h) ?w1))) c"
      by (simp add: fun_upd_idem)
    with True show ?thesis by (simp add: startThread_def Let_def r_note)
  qed
qed

lemma reachable_startThread_priority:
  assumes "reachable w c" "c this = Resting" "this \<noteq> 0"
  shows "reachable (startThread_priority P p this w) c"
  using assms
  by (simp add: startThread_priority_def reachable_setPriority reachable_startThread r_priority)

lemma reachable_force_kill:
  assumes "reachable w c" "c this = Resting"
  shows "reachable (force_kill P S this w) c"
proof -
  let ?w3 = "yield P S (emit Caller (LogMessage ''!! killing thread by force !!'')
               (jassertfalse Caller w))"
  let ?h = "threadHandle (heap ?w3 this)"
  let ?w4 = "kill_native ?h this (emit Caller (KillThread ?h) ?w3)"
  let ?w5 = "upd this (\<lambda>th. th\<lparr>threadHandle := 0\<rparr>) (yield P S ?w4)"
  let ?w6 = "upd this (\<lambda>th. th\<lparr>threadId := 0\<rparr>) (yield P S ?w5)"
  let ?w7 = "emit Caller LockEnter (yield P S ?w6)"
  let ?w8 = "?w7\<lparr>runningThreads := VoidArray_removeValue (runningThreads ?w7) this\<rparr>"
  have 3: "reachable ?w3 c"
    using assms(1) by (simp add: jassertfalse_def r_note reachable_yield)
  have 4: "reachable ?w4 (c(this := Killed))"
    by (rule r_kill [OF 3 assms(2)])
  then have "reachable (yield P S ?w4) (c(this := Killed))" by (rule reachable_yield)
  from r_kill_handle [OF this, of this]
  have "reachable ?w5 (c(this := HandleGone))" by simp
  then have "reachable (yield P S ?w5) (c(this := HandleGone))" by (rule reachable_yield)
  from r_kill_id [OF this, of this]
  have "reachable ?w6 (c(this := IdGone))" by simp
  then have "reachable ?w7 (c(this := IdGone))" by (simp add: reachable_yield r_note)
  from r_kill_remove [OF this, of this] assms(2)
  have "reachable ?w8 c" by (simp add: fun_upd_idem)
  then have "reachable (emit Caller LockExit (emit Caller (RegistryRemove this) ?w8)) c"
    by (simp add: r_note)
  then show ?thesis by (simp add: force_kill_def Let_def)
qed

lemma reachable_stop_wait_entry:
  "reachable w c \<Longrightarrow> reachable (stop_wait_entry P S cid tmo this w) c"
  by (simp add: stop_wait_entry_def stop_wait_call_def Let_def reachable_jassert
      reachable_yield reachable_signal reachable_notify)

lemma reachable_stopThread:
  assumes "stopThread P S cid tmo this w = Some w'" and "reachable w c" and "c this = Resting"
  shows "reachable w' c"
  using assms
  by (cases rule: stopThread_cases)
     (simp_all add: reachable_jassert reachable_force_kill reachable_yield
        reachable_after_sleeps reachable_stop_wait_entry)
lemma reachable_signal_from: "reachable w c \<Longrightarrow> reachable (signal_from i w) c"
  by (induction i arbitrary: w) (simp_all add: reachable_signal)

lemma reachable_signal_pass: "reachable w c \<Longrightarrow> reachable (signal_pass w) c"
  by (simp add: signal_pass_def Let_def r_note reachable_signal_from)

lemma reachable_stop_loop:
  assumes "stop_loop P S cid tmo w = Some w'"
  shows "reachable w (\<lambda>t. Resting) \<longrightarrow> reachable w' (\<lambda>t. Resting)"
proof -
  let ?Q = "\<lambda>x w'. case x of ((((P, S), cid), tmo), w) \<Rightarrow>
              reachable w (\<lambda>t. Resting) \<longrightarrow> reachable w' (\<lambda>t. Resting)"
  have "?Q ((((P, S), cid), tmo), w) w'"
  proof (rule stop_loop.raw_induct [where Pa = ?Q, OF _ assms])
    fix f :: "platform \<Rightarrow> sched \<Rightarrow> nat \<Rightarrow> int \<Rightarrow> world \<Rightarrow> world option"
    fix P S cid tmo w w'
    assume IH: "\<And>P S cid tmo w y. f P S cid tmo w = Some y \<Longrightarrow> ?Q ((((P, S), cid), tmo), w) y"
    assume eq: "(let w1 = emit Caller LockEnter w;
          t = VoidArray_index (runningThreads w1) 0;
          w2 = emit Caller LockExit w1
      in if t = 0 then Some w2
         else Option.bind (stopThread P S cid tmo t w2) (f P S cid tmo)) = Some w'"
    let ?w2 = "emit Caller LockExit (emit Caller LockEnter w)"
    let ?t = "VoidArray_index (runningThreads w) 0"
    have reg: "runningThreads (emit Caller LockEnter w) = runningThreads w"
      by (simp add: emit_def)
    have "reachable w' (\<lambda>t. Resting)" if r: "reachable w (\<lambda>t. Resting)"
    proof (cases "?t = 0")
      case True
      with eq have "w' = ?w2" by (simp add: Let_def reg)
      with r show ?thesis by (simp add: r_note)
    next
      case False
      with eq obtain w3 where s: "stopThread P S cid tmo ?t ?w2 = Some w3"
        and l: "f P S cid tmo w3 = Some w'"
        by (auto simp: Let_def reg bind_eq_Some_conv)
      from r have "reachable ?w2 (\<lambda>t. Resting)" by (simp add: r_note)
      from reachable_stopThread [OF s this] have "reachable w3 (\<lambda>t. Resting)" by simp
      with IH [OF l] show ?thesis by simp
    qed
    then show "?Q ((((P, S), cid), tmo), w) w'" by simp
  qed
  then show ?thesis by simp
qed

lemma reachable_stopAllThreads:
  assumes "stopAllThreads P S cid tmo w = Some w'" and "reachable w (\<lambda>t. Resting)"
  shows "reachable w' (\<lambda>t. Resting)"
  using reachable_stop_loop [of P S cid tmo "signal_pass w" w'] assms
  by (simp add: stopAllThreads_def reachable_signal_pass)

subsection \<open>The signalling pass\<close>




subsection \<open>Waiting for a thread from a caller that is not the target\<close>

lemma cdiv_pos: "0 < a \<Longrightarrow> cdiv a sleepMsPerIteration = a div 5"
  by (simp add: cdiv_def sleepMsPerIteration_def)

lemma new_actions_append:
  "caller_actions (trace w') = caller_actions (trace w) @ xs \<Longrightarrow> new_actions w w' = xs"
  by (simp add: new_actions_def)

lemma waitForThreadToExit_plain:
  "getThreadId this w \<noteq> cid \<Longrightarrow>
   waitForThreadToExit P S cid tmo this w =
     wait_loop P S tmo this (cdiv tmo sleepMsPerIteration) w"
  by (simp add: waitForThreadToExit_def jassert_def Let_def)

lemma stop_wait_call_plain:
  "cid \<noteq> getThreadId this w \<Longrightarrow>
   stop_wait_call P S cid this w =
     yield P S (notify this (yield P S (signalThreadShouldExit this (yield P S w))))"
  by (simp add: stop_wait_call_def Let_def jassert_def)

lemma list_ex_kill_sleeps: "\<not> list_ex is_kill (replicate k (Sleep ms))"
  by (induction k) simp_all

text \<open>
  With a timeout of zero there is no wait: the test of line 194 follows the notification,
  the others having had their turns.
\<close>

lemma stopThread_zero_timeout:
  assumes "isThreadRunning this w"
  shows "stopThread P S cid 0 this w =
     Some (let w5 = yield P S (stop_wait_call P S cid this w)
           in if isThreadRunning this w5 then force_kill P S this w5 else w5)"
  using assms by (simp add: stopThread_def Let_def stop_wait_call_def)


subsection \<open>The trampoline as a whole\<close>

lemma te_guarded_trace:
  "trace (snd (te_guarded P thread w)) =
     trace w @ map (Pair (Native thread))
       ([CaptureId (getCurrentThreadId P thread)]
        @ (if threadName (heap w thread) \<noteq> []
           then [SetCurrentThreadName (threadName (heap w thread))] else [])
        @ [GateWait 10000 (gate_signalled P thread)]
        @ (if gate_signalled P thread
           then (if affinityMask (heap w thread) \<noteq> 0
                 then [SetAffinityMask (affinityMask (heap w thread))] else [])
                @ [RunUserCode]
           else []))"
  by (simp add: te_guarded_def stmt_defs Let_def)

lemma te_guarded_fields:
  "heap (snd (te_guarded P thread w)) =
     (heap w)(thread := (heap w thread)\<lparr>threadId := getCurrentThreadId P thread\<rparr>)"
  "runningThreads (snd (te_guarded P thread w)) = runningThreads w"
  "fst (te_guarded P thread w) =
     (if gate_signalled P thread \<and> run_throws P thread then Thrown else Returned)"
  by (simp_all add: te_guarded_def stmt_defs Let_def)

lemma catch_fields:
  "fst (JUCE_TRY_CATCH_ALL_ASSERT a body w) = Returned"
  "heap (snd (JUCE_TRY_CATCH_ALL_ASSERT a body w)) = heap (snd (body w))"
  "runningThreads (snd (JUCE_TRY_CATCH_ALL_ASSERT a body w)) = runningThreads (snd (body w))"
  "trace (snd (JUCE_TRY_CATCH_ALL_ASSERT a body w)) =
     trace (snd (body w)) @ (if fst (body w) = Thrown then [(a, AssertFailed)] else [])"
  by (auto simp: JUCE_TRY_CATCH_ALL_ASSERT_def jassertfalse_def emit_def
      split: prod.splits outcome.splits)

lemma te_register_fields:
  "heap (te_register thread w) = heap w"
  "runningThreads (te_register thread w) = runningThreads w @ [thread]"
  "trace (te_register thread w) =
     trace w @ map (Pair (Native thread)) [LockEnter, RegistryAdd thread, LockExit]"
  by (simp_all add: te_register_def stmt_defs Let_def)

lemma te_deregister_fields:
  "heap (te_deregister thread w) = heap w"
  "runningThreads (te_deregister thread w) = remove1 thread (runningThreads w)"
  "thread \<in> set (runningThreads w) \<Longrightarrow>
   trace (te_deregister thread w) =
     trace w @ map (Pair (Native thread)) [LockEnter, RegistryRemove thread, LockExit]"
  by (simp_all add: te_deregister_def stmt_defs Let_def)

lemma te_exit_fields:
  "heap (te_clear_id thread (te_clear_handle thread (te_close_handle P thread w))) =
     (heap w)(thread := (heap w thread)\<lparr>threadHandle := 0, threadId := 0\<rparr>)"
  "runningThreads (te_clear_id thread (te_clear_handle thread (te_close_handle P thread w))) =
     runningThreads w"
  "trace (te_clear_id thread (te_clear_handle thread (te_close_handle P thread w))) =
     trace w @ map (Pair (Native thread))
       ((if JUCE_WIN32 P then [CloseThreadHandle (threadHandle (heap w thread))] else [])
        @ [HandleCleared, IdCleared])"
  by (simp_all add: stmt_defs)

lemma threadEntryPoint_split:
  "threadEntryPoint P thread w =
     (Returned, te_clear_id thread (te_clear_handle thread (te_close_handle P thread
        (te_mid P thread w))))"
  by (simp add: threadEntryPoint_def te_mid_def Let_def catch_fields split: prod.splits)
     (metis catch_fields(1) fst_conv)

lemma te_mid_fields:
  "heap (te_mid P thread w) =
     (heap w)(thread := (heap w thread)\<lparr>threadId := getCurrentThreadId P thread\<rparr>)"
  "runningThreads (te_mid P thread w) = remove1 thread (runningThreads w @ [thread])"
  "trace (te_mid P thread w) =
     trace w @ map (Pair (Native thread))
       ([LockEnter, RegistryAdd thread, LockExit, CaptureId (getCurrentThreadId P thread)]
        @ (if threadName (heap w thread) \<noteq> []
           then [SetCurrentThreadName (threadName (heap w thread))] else [])
        @ [GateWait 10000 (gate_signalled P thread)]
        @ (if gate_signalled P thread
           then (if affinityMask (heap w thread) \<noteq> 0
                 then [SetAffinityMask (affinityMask (heap w thread))] else [])
                @ [RunUserCode] @ (if run_throws P thread then [AssertFailed] else [])
           else [])
        @ [LockEnter, RegistryRemove thread, LockExit])"
  by (simp_all add: te_mid_def te_deregister_fields catch_fields te_guarded_fields
      te_guarded_trace te_register_fields)

subsection \<open>The program counters follow the trampoline\<close>

lemma set_pc_commute:
  "te_register t (set_pc u p w) = set_pc u p (te_register t w)"
  "te_capture_id P t (set_pc u p w) = set_pc u p (te_capture_id P t w)"
  "te_apply_name t (set_pc u p w) = set_pc u p (te_apply_name t w)"
  "te_wait_gate P t (set_pc u p w) = (fst (te_wait_gate P t w), set_pc u p (snd (te_wait_gate P t w)))"
  "te_affinity t (set_pc u p w) = set_pc u p (te_affinity t w)"
  "JUCE_TRY_CATCH_ALL_ASSERT (Native t) (te_run P t) (set_pc u p w) =
     (Returned, set_pc u p (snd (JUCE_TRY_CATCH_ALL_ASSERT (Native t) (te_run P t) w)))"
  "te_deregister t (set_pc u p w) = set_pc u p (te_deregister t w)"
  "te_close_handle P t (set_pc u p w) = set_pc u p (te_close_handle P t w)"
  "te_clear_handle t (set_pc u p w) = set_pc u p (te_clear_handle t w)"
  "te_clear_id t (set_pc u p w) = set_pc u p (te_clear_id t w)"
  by (simp_all add: stmt_defs Let_def)

lemma set_pc_simps:
  "tpc (set_pc t p w) t = p"
  "set_pc t p (set_pc t q w) = set_pc t p w"
  "exiting (set_pc t p w) = exiting w"
  by (simp_all add: set_pc_def)

lemma tramp_step_at:
  "tpc w t = AtRegister \<Longrightarrow> tramp_step P t w = set_pc t AtCaptureId (te_register t w)"
  "tpc w t = AtCaptureId \<Longrightarrow> tramp_step P t w = set_pc t AtApplyName (te_capture_id P t w)"
  "tpc w t = AtApplyName \<Longrightarrow> tramp_step P t w = set_pc t AtGateWait (te_apply_name t w)"
  "tpc w t = AtGateWait \<Longrightarrow> tramp_step P t w =
     set_pc t (if gate_signalled P t then AtAffinity else AtDeregister) (snd (te_wait_gate P t w))"
  "tpc w t = AtAffinity \<Longrightarrow> tramp_step P t w = set_pc t AtRun (te_affinity t w)"
  "tpc w t = AtRun \<Longrightarrow> tramp_step P t w =
     set_pc t AtDeregister (snd (JUCE_TRY_CATCH_ALL_ASSERT (Native t) (te_run P t) w))"
  "tpc w t = AtDeregister \<Longrightarrow> tramp_step P t w = set_pc t AtCloseHandle (te_deregister t w)"
  "tpc w t = AtCloseHandle \<Longrightarrow> tramp_step P t w = set_pc t AtClearHandle (te_close_handle P t w)"
  "tpc w t = AtClearHandle \<Longrightarrow> tramp_step P t w =
     (set_pc t Idle (te_clear_handle t w))\<lparr>exiting := t # exiting w\<rparr>"
  "tpc w t = Idle \<Longrightarrow> tramp_step P t w = w"
  by (simp_all add: tramp_step_def te_wait_gate_def split: prod.splits)

lemma tramp_tail:
  assumes "tpc w t = AtDeregister"
  shows "((tramp_step P t) ^^ 3) w = (set_pc t Idle (te_tail P t w))\<lparr>exiting := t # exiting w\<rparr>"
proof -
  let ?w1 = "set_pc t AtCloseHandle (te_deregister t w)"
  let ?w2 = "set_pc t AtClearHandle (te_close_handle P t (te_deregister t w))"
  have 1: "tramp_step P t w = ?w1" using assms by (simp add: tramp_step_at)
  have 2: "tramp_step P t ?w1 = ?w2"
    by (simp add: tramp_step_at set_pc_simps set_pc_commute)
  have 3: "tramp_step P t ?w2 = (set_pc t Idle (te_tail P t w))\<lparr>exiting := t # exiting w\<rparr>"
    by (simp add: tramp_step_at set_pc_simps set_pc_commute te_tail_def)
       (simp add: stmt_defs Let_def)
  show ?thesis by (simp add: eval_nat_numeral 1 2 3)
qed

lemma catch_guarded:
  "snd (JUCE_TRY_CATCH_ALL_ASSERT a (te_guarded P t) w) =
     (if gate_signalled P t
      then snd (JUCE_TRY_CATCH_ALL_ASSERT a (te_run P t)
             (te_affinity t (snd (te_wait_gate P t (te_apply_name t (te_capture_id P t w))))))
      else snd (te_wait_gate P t (te_apply_name t (te_capture_id P t w))))"
  by (simp add: JUCE_TRY_CATCH_ALL_ASSERT_def te_guarded_def Let_def te_wait_gate_def
      split: prod.splits)

lemma tramp_head:
  assumes "tpc w t = AtRegister"
  shows "((tramp_step P t) ^^ (if gate_signalled P t then 6 else 4)) w =
           set_pc t AtDeregister
             (snd (JUCE_TRY_CATCH_ALL_ASSERT (Native t) (te_guarded P t) (te_register t w)))"
proof -
  let ?w1 = "set_pc t AtCaptureId (te_register t w)"
  let ?w2 = "set_pc t AtApplyName (te_capture_id P t (te_register t w))"
  let ?w3 = "set_pc t AtGateWait (te_apply_name t (te_capture_id P t (te_register t w)))"
  let ?g = "snd (te_wait_gate P t (te_apply_name t (te_capture_id P t (te_register t w))))"
  let ?w4 = "set_pc t (if gate_signalled P t then AtAffinity else AtDeregister) ?g"
  have 1: "tramp_step P t w = ?w1" using assms by (simp add: tramp_step_at)
  have 2: "tramp_step P t ?w1 = ?w2"
    by (simp add: tramp_step_at set_pc_simps set_pc_commute)
  have 3: "tramp_step P t ?w2 = ?w3"
    by (simp add: tramp_step_at set_pc_simps set_pc_commute)
  have 4: "tramp_step P t ?w3 = ?w4"
    by (simp add: tramp_step_at set_pc_simps set_pc_commute)
  show ?thesis
  proof (cases "gate_signalled P t")
    case False
    then show ?thesis by (simp add: eval_nat_numeral 1 2 3 4 catch_guarded)
  next
    case True
    let ?w5 = "set_pc t AtRun (te_affinity t ?g)"
    have 5: "tramp_step P t (set_pc t AtAffinity ?g) = ?w5"
      by (simp add: tramp_step_at set_pc_simps set_pc_commute)
    have 6: "tramp_step P t ?w5 =
        set_pc t AtDeregister
          (snd (JUCE_TRY_CATCH_ALL_ASSERT (Native t) (te_run P t) (te_affinity t ?g)))"
      by (simp add: tramp_step_at set_pc_simps set_pc_commute)
    show ?thesis using True by (simp add: eval_nat_numeral 1 2 3 4 5 6 catch_guarded)
  qed
qed

lemma te_frame:
  "tpc (te_register t w) = tpc w" "exiting (te_register t w) = exiting w"
  "tpc (te_capture_id P t w) = tpc w" "exiting (te_capture_id P t w) = exiting w"
  "tpc (te_apply_name t w) = tpc w" "exiting (te_apply_name t w) = exiting w"
  "tpc (snd (te_wait_gate P t w)) = tpc w" "exiting (snd (te_wait_gate P t w)) = exiting w"
  "tpc (te_affinity t w) = tpc w" "exiting (te_affinity t w) = exiting w"
  "tpc (snd (JUCE_TRY_CATCH_ALL_ASSERT a (te_run P t) w)) = tpc w"
  "exiting (snd (JUCE_TRY_CATCH_ALL_ASSERT a (te_run P t) w)) = exiting w"
  "tpc (te_deregister t w) = tpc w" "exiting (te_deregister t w) = exiting w"
  "tpc (te_close_handle P t w) = tpc w" "exiting (te_close_handle P t w) = exiting w"
  "tpc (te_clear_handle t w) = tpc w" "exiting (te_clear_handle t w) = exiting w"
  "tpc (te_clear_id t w) = tpc w" "exiting (te_clear_id t w) = exiting w"
  by (simp_all add: stmt_defs Let_def)

lemma te_clear_id_exiting:
  "te_clear_id t (w\<lparr>exiting := l\<rparr>) = (te_clear_id t w)\<lparr>exiting := l\<rparr>"
  by (simp add: stmt_defs)

lemma funpow_idle: "tpc w t = Idle \<Longrightarrow> ((tramp_step P t) ^^ n) w = w"
  by (induction n) (simp_all add: tramp_step_at)

text \<open>
  Scheduled nine times from the head of the trampoline and once for line 92, the native
  thread of an instance has done what \<^verbatim>\<open>threadEntryPoint\<close> does as a whole.
\<close>

lemma tramp_steps_whole:
  assumes "tpc w thread = AtRegister"
  shows "exit_step thread (((tramp_step P thread) ^^ 9) w) =
           (snd (threadEntryPoint P thread w))
             \<lparr>tpc := (tpc w)(thread := Idle), exiting := exiting w\<rparr>"
proof -
  let ?m = "snd (JUCE_TRY_CATCH_ALL_ASSERT (Native thread) (te_guarded P thread)
               (te_register thread w))"
  let ?d = "set_pc thread AtDeregister ?m"
  let ?e = "(set_pc thread Idle (te_tail P thread ?d))\<lparr>exiting := thread # exiting ?d\<rparr>"
  have d: "tpc ?d thread = AtDeregister" by (simp add: set_pc_simps)
  have e: "tpc ?e thread = Idle" by (simp add: set_pc_def)
  have "((tramp_step P thread) ^^ 9) w = ?e"
  proof (cases "gate_signalled P thread")
    case True
    have "((tramp_step P thread) ^^ (3 + 6)) w = ((tramp_step P thread) ^^ 3) ?d"
      using tramp_head [OF assms, of P] True by (simp only: funpow_add o_apply if_True)
    then show ?thesis by (simp add: tramp_tail [OF d])
  next
    case False
    have "((tramp_step P thread) ^^ (2 + (3 + 4))) w =
            ((tramp_step P thread) ^^ 2) (((tramp_step P thread) ^^ 3) ?d)"
      using tramp_head [OF assms, of P] False by (simp only: funpow_add o_apply if_False)
    then show ?thesis by (simp add: tramp_tail [OF d] funpow_idle [OF e])
  qed
  moreover have "exit_step thread ?e =
           (snd (threadEntryPoint P thread w))
             \<lparr>tpc := (tpc w)(thread := Idle), exiting := exiting w\<rparr>"
  proof -
    let ?Y = "te_clear_id thread (te_tail P thread ?m)"
    have m: "tpc ?m = tpc w" "exiting ?m = exiting w"
      by (simp_all add: catch_guarded te_frame)
    have Y: "tpc ?Y = tpc w" "exiting ?Y = exiting w"
      by (simp_all add: te_tail_def te_frame m)
    have "exit_step thread ?e = (te_clear_id thread ?e)\<lparr>exiting := exiting ?d\<rparr>"
      by (simp add: exit_step_def)
    also have "te_clear_id thread ?e = (set_pc thread Idle ?Y)\<lparr>exiting := thread # exiting ?d\<rparr>"
      by (simp add: te_clear_id_exiting te_tail_def set_pc_commute set_pc_simps)
    also have "(set_pc thread Idle ?Y)\<lparr>exiting := thread # exiting ?d, exiting := exiting ?d\<rparr>
        = ?Y\<lparr>tpc := (tpc w)(thread := Idle), exiting := exiting w\<rparr>"
      by (simp add: set_pc_def Y m)
    also have "?Y = snd (threadEntryPoint P thread w)"
      by (simp add: threadEntryPoint_split te_mid_def te_tail_def)
    finally show ?thesis .
  qed
  ultimately show ?thesis by simp
qed

subsection \<open>The demonstration worlds\<close>

lemma coherent_demo_running: "coherent demo_running"
  unfolding demo_running_def demo_started_def demo_idle_def
  by (simp add: eval_nat_numeral coherent_tramp_step coherent_startThread coherent_initial)


lemma demo_running_values:
  "isThreadRunning 1 demo_running"
  "threadHandle (heap demo_running 1) = 101"
  "threadId (heap demo_running 1) = 201"
  "threadPriority (heap demo_running 1) = 5"
  "runningThreads demo_running = [1]"
  "tpc demo_running 1 = AtRun"
  by (simp_all add: demo_running_def demo_started_def demo_idle_def initial_world_def
      startThread_def Thread_new_def demo_platform_def upd_def emit_def spawn_def Let_def
      eval_nat_numeral tramp_step_def stmt_defs isThreadRunning_def)

lemma demo_started_values:
  "threadName (heap demo_started 1) = ''worker''"
  "affinityMask (heap demo_started 1) = 0"
  "threadHandle (heap demo_started 1) = 101"
  "runningThreads demo_started = []"
  by (simp_all add: demo_started_def demo_idle_def initial_world_def startThread_def
      Thread_new_def demo_platform_def upd_def emit_def spawn_def Let_def)

lemma demo_platform_values:
  "getCurrentThreadId demo_platform 1 = 201" "gate_signalled demo_platform 1"
  "\<not> run_throws demo_platform 1" "\<not> JUCE_WIN32 demo_platform"
  "\<not> gate_signalled timeout_platform 1" "\<not> JUCE_WIN32 timeout_platform"
  "getCurrentThreadId timeout_platform 1 = 201"
  "gate_signalled throwing_platform 1" "run_throws throwing_platform 1"
  "juce_setThreadPriority demo_platform 101 7" "juce_setThreadPriority demo_platform 0 7"
  "\<not> juce_setThreadPriority strict_platform 101 7"
  by (simp_all add: demo_platform_def timeout_platform_def throwing_platform_def
      strict_platform_def)

lemma demo_idle_values:
  "\<not> isThreadRunning 1 demo_idle"
  by (simp add: demo_idle_def initial_world_def Thread_new_def isThreadRunning_def)

lemma demo_caller: "(99::nat) \<noteq> getThreadId 1 demo_running"
  using demo_running_values(3) by (simp add: getThreadId_def)






text \<open>
  A thread that is running at every poll of \<^verbatim>\<open>stopThread (12)\<close> and leaves between the
  return of the wait and the test of line 194 is not killed.
\<close>

lemma stopThread_gap:
  "isThreadRunning 1
     (after_sleeps demo_platform sched_gap 2
        (stop_wait_entry demo_platform sched_gap 99 12 1 demo_running))
   \<and> map_option fst
       (waitForThreadToExit demo_platform sched_gap 99 12 1
          (stop_wait_call demo_platform sched_gap 99 1 demo_running)) = Some False
   \<and> map_option (\<lambda>w'. (escalated demo_running w', isThreadRunning 1 w', threadId (heap w' 1)))
       (stopThread demo_platform sched_gap 99 12 1 demo_running) = Some (False, False, 0)"
  by code_simp


section \<open>The claims\<close>

text \<open>
  C1, amended. \<^verbatim>\<open>stopThread\<close> with a nonzero timeout, called by a thread that is not the
  target, in a coherent world, the native threads running between any two statements of
  the caller as the schedule tells. It returns whenever the timeout is positive. After it
  has returned, the handle of the target is null, so \<^verbatim>\<open>isThreadRunning()\<close> is false, and
  the target is not in the registry. The call went through \<^verbatim>\<open>juce_killThread\<close> exactly
  when the target was running at the test of line 186, the timeout is positive, the
  target was still running at every poll that the timeout allows, and it is still running
  when line 194 tests it again, which is later than the last poll: a thread that outlasts
  the wait and clears its handle before that test is not killed. A negative timeout waits
  without limit and never kills. After a kill the thread id is \<open>0\<close>. Otherwise the
  thread id is \<open>0\<close> or the native thread that leaves has line 92 left to run: a poll can
  see the handle that line 91 cleared before line 92 clears the id.
\<close>

theorem stopThread_post:
  assumes "coherent w" and "cid \<noteq> getThreadId this w" and "tmo \<noteq> 0"
  shows "(0 < tmo \<longrightarrow> stopThread P S cid tmo this w \<noteq> None)
       \<and> (\<forall>w'. stopThread P S cid tmo this w = Some w' \<longrightarrow>
            \<not> isThreadRunning this w'
          \<and> threadHandle (heap w' this) = 0
          \<and> this \<notin> set (runningThreads w')
          \<and> (escalated w w' =
               (isThreadRunning this w \<and> 0 < tmo \<and>
                (\<forall>k. int k \<le> tmo div 5 \<longrightarrow>
                   isThreadRunning this
                     (after_sleeps P S k (stop_wait_entry P S cid tmo this w))) \<and>
                isThreadRunning this
                  (yield P S
                     (after_sleeps P S (nat (tmo div 5))
                        (stop_wait_entry P S cid tmo this w)))))
          \<and> (escalated w w' \<longrightarrow> threadId (heap w' this) = 0)
          \<and> (threadId (heap w' this) = 0 \<or> this \<in> set (exiting w')))"
proof (intro conjI allI impI)
  show "stopThread P S cid tmo this w \<noteq> None" if "0 < tmo"
    using stopThread_returns [of tmo P S cid this w] that by auto
next
  fix w'
  assume s: "stopThread P S cid tmo this w = Some w'"
  let ?E = "stop_wait_entry P S cid tmo this w"
  let ?pre = "Notify this #
      (if tmo \<noteq> 0 \<and> getThreadId this (stop_wait_call P S cid this w) = cid
       then [AssertFailed] else [])"
  have caE: "caller_actions (trace ?E) = caller_actions (trace w) @ ?pre"
    using ca_stop_wait_entry [of P S cid tmo this w] assms(2) by simp
  have cohE: "coherent (after_sleeps P S k ?E)" for k
    by (simp add: coherent_after_sleeps coherent_stop_wait_entry assms(1))
  have coh': "coherent w'" by (rule coherent_stopThread [OF s assms(1)])
  show stopped: "\<not> isThreadRunning this w'" by (rule stopThread_stopped [OF s])
  then show "threadHandle (heap w' this) = 0" by (simp add: isThreadRunning_def)
  show "this \<notin> set (runningThreads w')" by (rule coherent_not_member [OF coh' stopped])
  from coh' stopped show "threadId (heap w' this) = 0 \<or> this \<in> set (exiting w')"
    by (auto simp: coherent_def isThreadRunning_def)
  let ?R = "isThreadRunning this w \<and> 0 < tmo \<and>
      (\<forall>k. int k \<le> tmo div 5 \<longrightarrow> isThreadRunning this (after_sleeps P S k ?E)) \<and>
      isThreadRunning this (yield P S (after_sleeps P S (nat (tmo div 5)) ?E))"
  have esc: "escalated w w' = ?R \<and> (escalated w w' \<longrightarrow> threadId (heap w' this) = 0)"
    using s
  proof (cases rule: stopThread_cases)
    case idle
    with assms(2) have "w' = w" by (simp add: jassert_def)
    with idle show ?thesis by (simp add: escalated_def new_actions_def)
  next
    case (exited k)
    have "new_actions w w' = ?pre @ replicate k (Sleep sleepMsPerIteration)"
      by (rule new_actions_append) (simp add: exited(2) ca_yield ca_after_sleeps caE)
    then have ne: "\<not> escalated w w'"
      by (simp add: escalated_def list_ex_kill_sleeps)
    have "\<not> ?R"
    proof
      assume R: ?R
      then have pos: "0 < tmo" by simp
      with exited(4) have "int k \<le> tmo div 5" by (simp add: cdiv_pos)
      with R have "isThreadRunning this (after_sleeps P S k ?E)" by simp
      with exited(5) pos have "int k = tmo div 5" by (simp add: cdiv_pos)
      then have "nat (tmo div 5) = k" by simp
      with R exited(2,3) show False by simp
    qed
    with ne show ?thesis by simp
  next
    case (killed k)
    from ca_force_kill [of P S this "yield P S (after_sleeps P S k ?E)"] obtain h where
      "caller_actions (trace w') =
         caller_actions (trace (yield P S (after_sleeps P S k ?E))) @
           [AssertFailed, LogMessage ''!! killing thread by force !!'',
            KillThread h, LockEnter, RegistryRemove this, LockExit]"
      unfolding killed(2) by blast
    then have "new_actions w w' = (?pre @ replicate k (Sleep sleepMsPerIteration)) @
             [AssertFailed, LogMessage ''!! killing thread by force !!'',
              KillThread h, LockEnter, RegistryRemove this, LockExit]"
      by (intro new_actions_append) (simp add: ca_yield ca_after_sleeps caE)
    then have e: "escalated w w'" by (simp add: escalated_def)
    have at_k: "isThreadRunning this (after_sleeps P S k ?E)"
      using killed(3) stopped_yield [of this "after_sleeps P S k ?E" P S] by blast
    with killed(6) assms(3) have pos: "0 < tmo" and k: "int k = tmo div 5"
      by (auto simp: cdiv_pos)
    have "\<forall>j. int j \<le> tmo div 5 \<longrightarrow> isThreadRunning this (after_sleeps P S j ?E)"
    proof (intro allI impI)
      fix j assume "int j \<le> tmo div 5"
      with k have "j < k \<or> j = k" by linarith
      with killed(4) at_k show "isThreadRunning this (after_sleeps P S j ?E)" by auto
    qed
    moreover from k have "nat (tmo div 5) = k" by simp
    moreover have "threadId (heap w' this) = 0"
      unfolding killed(2) by (rule force_kill_post(3)) (simp add: coherent_yield cohE)
    ultimately show ?thesis using e killed(1,3) pos by simp
  qed
  from esc show "escalated w w' = ?R" by simp
  show "threadId (heap w' this) = 0" if "escalated w w'"
    using esc that by simp
qed

theorem stopThread_post_witness:
  "coherent demo_running \<and> (99::nat) \<noteq> getThreadId 1 demo_running \<and> (12::int) \<noteq> 0
   \<and> (case stopThread demo_platform sched_never 99 12 1 demo_running of
         None \<Rightarrow> False
       | Some w' \<Rightarrow> \<not> isThreadRunning 1 w' \<and> 1 \<notin> set (runningThreads w')
                    \<and> escalated demo_running w' \<and> threadId (heap w' 1) = 0)"
proof -
  have t: "(12::int) \<noteq> 0" by simp
  note p = stopThread_post [OF coherent_demo_running demo_caller t, of demo_platform sched_never]
  from p have "stopThread demo_platform sched_never 99 12 1 demo_running \<noteq> None" by simp
  then obtain w' where w': "stopThread demo_platform sched_never 99 12 1 demo_running = Some w'"
    by blast
  have "case stopThread demo_platform sched_never 99 12 1 demo_running of
         None \<Rightarrow> False | Some w' \<Rightarrow> escalated demo_running w'"
    by code_simp
  with w' have e: "escalated demo_running w'" by simp
  with p w' have "\<not> isThreadRunning 1 w' \<and> 1 \<notin> set (runningThreads w')
                    \<and> escalated demo_running w' \<and> threadId (heap w' 1) = 0" by blast
  with w' coherent_demo_running demo_caller t show ?thesis by simp
qed

theorem stopThread_post_counterexample:
  "coherent demo_running \<and> (99::nat) \<noteq> getThreadId 1 demo_running \<and> (100::int) \<noteq> 0
   \<and> map_option (\<lambda>w'. (isThreadRunning 1 w', threadId (heap w' 1)))
        (stopThread demo_platform sched_late 99 100 1 demo_running) = Some (False, 201)"
proof -
  have "map_option (\<lambda>w'. (isThreadRunning 1 w', threadId (heap w' 1)))
        (stopThread demo_platform sched_late 99 100 1 demo_running) = Some (False, 201)"
    by code_simp
  with coherent_demo_running demo_caller show ?thesis by simp
qed




text \<open>
  C3. On an instance whose handle is not null, \<^verbatim>\<open>startThread()\<close> leaves the handle and
  the thread id as they were, calls nothing of the platform (no native thread is
  created), leaves the program counters and the registry alone, and doing it twice is
  doing it once.
\<close>

theorem startThread_running_noop:
  assumes "isThreadRunning this w"
  shows "threadHandle (heap (startThread P this w) this) = threadHandle (heap w this)
       \<and> threadId (heap (startThread P this w) this) = threadId (heap w this)
       \<and> trace (startThread P this w) = trace w
       \<and> tpc (startThread P this w) = tpc w
       \<and> runningThreads (startThread P this w) = runningThreads w
       \<and> startThread P this (startThread P this w) = startThread P this w"
  using assms by (simp add: isThreadRunning_def startThread_def upd_def Let_def)

theorem startThread_running_noop_witness:
  "isThreadRunning 1 demo_running
   \<and> threadHandle (heap (startThread demo_platform 1 demo_running) 1) = 101
   \<and> threadId (heap (startThread demo_platform 1 demo_running) 1) = 201
   \<and> trace (startThread demo_platform 1 demo_running) = trace demo_running
   \<and> startThread demo_platform 1 (startThread demo_platform 1 demo_running) =
       startThread demo_platform 1 demo_running"
  using startThread_running_noop [OF demo_running_values(1), of demo_platform]
    demo_running_values(1,2,3)
  by metis

text \<open>
  C4, amended. On a running instance \<^verbatim>\<open>startThread (priority)\<close> is
  \<^verbatim>\<open>setPriority (priority)\<close>: one call of \<^verbatim>\<open>juce_setThreadPriority\<close> on the live
  handle, with the handle, the thread id and the native thread unchanged. On an idle
  instance it stores the priority in \<^verbatim>\<open>threadPriority_\<close> by an assignment, whatever the
  platform would answer, and then does what \<^verbatim>\<open>startThread()\<close> does; the objects end
  as after \<^verbatim>\<open>setPriority (priority)\<close> followed by \<^verbatim>\<open>startThread()\<close> when the platform
  accepts that priority for the null handle.
\<close>

theorem startThread_priority_cases:
  "(isThreadRunning this w \<longrightarrow>
      startThread_priority P p this w = snd (setPriority P p this w)
    \<and> threadHandle (heap (startThread_priority P p this w) this) = threadHandle (heap w this)
    \<and> threadId (heap (startThread_priority P p this w) this) = threadId (heap w this)
    \<and> tpc (startThread_priority P p this w) = tpc w
    \<and> trace (startThread_priority P p this w) =
        trace w @ [(Caller, SetThreadPriority (threadHandle (heap w this)) p)])
   \<and> (\<not> isThreadRunning this w \<longrightarrow>
      startThread_priority P p this w =
        startThread P this (upd this (\<lambda>th. th\<lparr>threadPriority := p\<rparr>) w)
    \<and> threadPriority (heap (startThread_priority P p this w) this) = p
    \<and> (juce_setThreadPriority P 0 p \<longrightarrow>
         heap (startThread_priority P p this w) =
         heap (startThread P this (snd (setPriority P p this w)))))"
  by (simp add: isThreadRunning_def startThread_priority_def setPriority_def startThread_def
      Let_def upd_def emit_def spawn_def)

theorem startThread_priority_cases_witness:
  "isThreadRunning 1 demo_running
   \<and> startThread_priority demo_platform 7 1 demo_running =
       snd (setPriority demo_platform 7 1 demo_running)
   \<and> threadHandle (heap (startThread_priority demo_platform 7 1 demo_running) 1) = 101
   \<and> \<not> isThreadRunning 1 demo_idle
   \<and> juce_setThreadPriority demo_platform 0 7
   \<and> threadPriority (heap (startThread_priority demo_platform 7 1 demo_idle) 1) = 7
   \<and> heap (startThread_priority demo_platform 7 1 demo_idle) =
       heap (startThread demo_platform 1 (snd (setPriority demo_platform 7 1 demo_idle)))"
  using startThread_priority_cases [of 1 demo_running demo_platform 7]
    startThread_priority_cases [of 1 demo_idle demo_platform 7]
    demo_running_values(1,2) demo_idle_values demo_platform_values(11)
  by metis

theorem startThread_priority_cases_counterexample:
  "\<not> isThreadRunning 1 demo_idle
   \<and> threadPriority (heap (startThread_priority strict_platform 7 1 demo_idle) 1) = 7
   \<and> threadPriority
       (heap (startThread strict_platform 1 (snd (setPriority strict_platform 7 1 demo_idle))) 1) = 5"
  by (simp add: demo_idle_def initial_world_def Thread_new_def isThreadRunning_def
      startThread_priority_def startThread_def setPriority_def strict_platform_def
      demo_platform_def upd_def emit_def spawn_def Let_def)

text \<open>
  C5. The trampoline does its statements in this order, each on the world the one before
  left: under the registry lock it appends the instance to the registry; it stores the id
  of the native thread in the instance; it applies the name when the name is not empty;
  it waits on the start gate with the bound of 10000 ms; when the wait returned true it
  sets the affinity if the mask is not zero and then calls \<^verbatim>\<open>run()\<close>; when the wait
  timed out it does neither, so that \<^verbatim>\<open>run()\<close> is called exactly when the wait returned
  true; in both cases it then removes the instance from the registry under the registry
  lock, closes the handle on Windows, and stores \<open>0\<close> in the handle and in the id. The
  theorem gives what every statement does to the registry, to the objects and to the
  trace, the world and the trace at the end, and that control returns.
\<close>

theorem threadEntryPoint_order:
  "(let r = te_register thread w;
        c = te_capture_id P thread r;
        n = te_apply_name thread c;
        g = snd (te_wait_gate P thread n);
        a = te_affinity thread g;
        u = snd (JUCE_TRY_CATCH_ALL_ASSERT (Native thread) (te_run P thread) a);
        m = (if gate_signalled P thread then u else g);
        d = te_deregister thread m;
        x = te_close_handle P thread d;
        y = te_clear_handle thread x;
        z = te_clear_id thread y
    in threadEntryPoint P thread w = (Returned, z)
     \<and> runningThreads r = runningThreads w @ [thread] \<and> heap r = heap w
     \<and> trace r = trace w @ map (Pair (Native thread)) [LockEnter, RegistryAdd thread, LockExit]
     \<and> runningThreads c = runningThreads r
     \<and> heap c = (heap w)(thread := (heap w thread)\<lparr>threadId := getCurrentThreadId P thread\<rparr>)
     \<and> trace c = trace r @ [(Native thread, CaptureId (getCurrentThreadId P thread))]
     \<and> runningThreads n = runningThreads c \<and> heap n = heap c
     \<and> trace n = trace c @
         (if threadName (heap w thread) \<noteq> []
          then [(Native thread, SetCurrentThreadName (threadName (heap w thread)))] else [])
     \<and> fst (te_wait_gate P thread n) = gate_signalled P thread
     \<and> runningThreads g = runningThreads n \<and> heap g = heap n
     \<and> trace g = trace n @ [(Native thread, GateWait 10000 (gate_signalled P thread))]
     \<and> runningThreads a = runningThreads g \<and> heap a = heap g
     \<and> trace a = trace g @
         (if affinityMask (heap w thread) \<noteq> 0
          then [(Native thread, SetAffinityMask (affinityMask (heap w thread)))] else [])
     \<and> runningThreads u = runningThreads a \<and> heap u = heap a
     \<and> trace u = trace a @ [(Native thread, RunUserCode)] @
         (if run_throws P thread then [(Native thread, AssertFailed)] else [])
     \<and> runningThreads d = remove1 thread (runningThreads w @ [thread]) \<and> heap d = heap m
     \<and> trace d = trace m @
         map (Pair (Native thread)) [LockEnter, RegistryRemove thread, LockExit]
     \<and> runningThreads x = runningThreads d \<and> heap x = heap d
     \<and> trace x = trace d @
         (if JUCE_WIN32 P
          then [(Native thread, CloseThreadHandle (threadHandle (heap w thread)))] else [])
     \<and> runningThreads y = runningThreads x
     \<and> heap y = (heap x)(thread := (heap x thread)\<lparr>threadHandle := 0\<rparr>)
     \<and> trace y = trace x @ [(Native thread, HandleCleared)]
     \<and> runningThreads z = runningThreads y
     \<and> heap z = (heap y)(thread := (heap y thread)\<lparr>threadId := 0\<rparr>)
     \<and> trace z = trace y @ [(Native thread, IdCleared)])
   \<and> heap (snd (threadEntryPoint P thread w)) =
       (heap w)(thread := (heap w thread)\<lparr>threadHandle := 0, threadId := 0\<rparr>)
   \<and> runningThreads (snd (threadEntryPoint P thread w)) =
       remove1 thread (runningThreads w @ [thread])
   \<and> ((Native thread, RunUserCode) \<in> set (drop (length (trace w))
          (trace (snd (threadEntryPoint P thread w))))) = gate_signalled P thread
   \<and> trace (snd (threadEntryPoint P thread w)) =
     trace w @ map (Pair (Native thread))
       ([LockEnter, RegistryAdd thread, LockExit, CaptureId (getCurrentThreadId P thread)]
        @ (if threadName (heap w thread) \<noteq> []
           then [SetCurrentThreadName (threadName (heap w thread))] else [])
        @ [GateWait 10000 (gate_signalled P thread)]
        @ (if gate_signalled P thread
           then (if affinityMask (heap w thread) \<noteq> 0
                 then [SetAffinityMask (affinityMask (heap w thread))] else [])
                @ [RunUserCode] @ (if run_throws P thread then [AssertFailed] else [])
           else [])
        @ [LockEnter, RegistryRemove thread, LockExit]
        @ (if JUCE_WIN32 P then [CloseThreadHandle (threadHandle (heap w thread))] else [])
        @ [HandleCleared, IdCleared])"
proof -
  have whole: "threadEntryPoint P thread w =
      (Returned, te_clear_id thread (te_clear_handle thread (te_close_handle P thread
         (te_deregister thread
            (if gate_signalled P thread
             then snd (JUCE_TRY_CATCH_ALL_ASSERT (Native thread) (te_run P thread)
                    (te_affinity thread (snd (te_wait_gate P thread
                       (te_apply_name thread (te_capture_id P thread (te_register thread w)))))))
             else snd (te_wait_gate P thread
                    (te_apply_name thread (te_capture_id P thread (te_register thread w)))))))))"
    by (simp add: threadEntryPoint_split te_mid_def catch_guarded)
  have stages: "runningThreads (te_register thread w) = runningThreads w @ [thread]"
    "heap (te_register thread w) = heap w"
    "trace (te_register thread w) =
       trace w @ map (Pair (Native thread)) [LockEnter, RegistryAdd thread, LockExit]"
    "runningThreads (te_capture_id P thread v) = runningThreads v"
    "heap (te_capture_id P thread v) =
       (heap v)(thread := (heap v thread)\<lparr>threadId := getCurrentThreadId P thread\<rparr>)"
    "trace (te_capture_id P thread v) =
       trace v @ [(Native thread, CaptureId (getCurrentThreadId P thread))]"
    "runningThreads (te_apply_name thread v) = runningThreads v"
    "heap (te_apply_name thread v) = heap v"
    "trace (te_apply_name thread v) = trace v @
       (if threadName (heap v thread) \<noteq> []
        then [(Native thread, SetCurrentThreadName (threadName (heap v thread)))] else [])"
    "fst (te_wait_gate P thread v) = gate_signalled P thread"
    "runningThreads (snd (te_wait_gate P thread v)) = runningThreads v"
    "heap (snd (te_wait_gate P thread v)) = heap v"
    "trace (snd (te_wait_gate P thread v)) =
       trace v @ [(Native thread, GateWait 10000 (gate_signalled P thread))]"
    "runningThreads (te_affinity thread v) = runningThreads v"
    "heap (te_affinity thread v) = heap v"
    "trace (te_affinity thread v) = trace v @
       (if affinityMask (heap v thread) \<noteq> 0
        then [(Native thread, SetAffinityMask (affinityMask (heap v thread)))] else [])"
    "runningThreads (snd (JUCE_TRY_CATCH_ALL_ASSERT (Native thread) (te_run P thread) v)) =
       runningThreads v"
    "heap (snd (JUCE_TRY_CATCH_ALL_ASSERT (Native thread) (te_run P thread) v)) = heap v"
    "trace (snd (JUCE_TRY_CATCH_ALL_ASSERT (Native thread) (te_run P thread) v)) =
       trace v @ [(Native thread, RunUserCode)] @
         (if run_throws P thread then [(Native thread, AssertFailed)] else [])"
    "runningThreads (te_deregister thread v) = remove1 thread (runningThreads v)"
    "heap (te_deregister thread v) = heap v"
    "thread \<in> set (runningThreads v) \<Longrightarrow> trace (te_deregister thread v) =
       trace v @ map (Pair (Native thread)) [LockEnter, RegistryRemove thread, LockExit]"
    "runningThreads (te_close_handle P thread v) = runningThreads v"
    "heap (te_close_handle P thread v) = heap v"
    "trace (te_close_handle P thread v) = trace v @
       (if JUCE_WIN32 P
        then [(Native thread, CloseThreadHandle (threadHandle (heap v thread)))] else [])"
    "runningThreads (te_clear_handle thread v) = runningThreads v"
    "heap (te_clear_handle thread v) = (heap v)(thread := (heap v thread)\<lparr>threadHandle := 0\<rparr>)"
    "trace (te_clear_handle thread v) = trace v @ [(Native thread, HandleCleared)]"
    "runningThreads (te_clear_id thread v) = runningThreads v"
    "heap (te_clear_id thread v) = (heap v)(thread := (heap v thread)\<lparr>threadId := 0\<rparr>)"
    "trace (te_clear_id thread v) = trace v @ [(Native thread, IdCleared)]"
    for v
    by (simp_all add: stmt_defs Let_def JUCE_TRY_CATCH_ALL_ASSERT_def jassertfalse_def)
  have run: "((Native thread, RunUserCode) \<in> set (drop (length (trace w))
          (trace (snd (threadEntryPoint P thread w))))) = gate_signalled P thread"
    by (auto simp: threadEntryPoint_split te_exit_fields te_mid_fields)
  have mem: "thread \<in> set (runningThreads (if gate_signalled P thread
      then snd (JUCE_TRY_CATCH_ALL_ASSERT (Native thread) (te_run P thread)
             (te_affinity thread (snd (te_wait_gate P thread
                (te_apply_name thread (te_capture_id P thread (te_register thread w)))))))
      else snd (te_wait_gate P thread
             (te_apply_name thread (te_capture_id P thread (te_register thread w))))))"
    by (simp add: stages)
  have steps: "let r = te_register thread w;
        c = te_capture_id P thread r;
        n = te_apply_name thread c;
        g = snd (te_wait_gate P thread n);
        a = te_affinity thread g;
        u = snd (JUCE_TRY_CATCH_ALL_ASSERT (Native thread) (te_run P thread) a);
        m = (if gate_signalled P thread then u else g);
        d = te_deregister thread m;
        x = te_close_handle P thread d;
        y = te_clear_handle thread x;
        z = te_clear_id thread y
    in threadEntryPoint P thread w = (Returned, z)
     \<and> runningThreads r = runningThreads w @ [thread] \<and> heap r = heap w
     \<and> trace r = trace w @ map (Pair (Native thread)) [LockEnter, RegistryAdd thread, LockExit]
     \<and> runningThreads c = runningThreads r
     \<and> heap c = (heap w)(thread := (heap w thread)\<lparr>threadId := getCurrentThreadId P thread\<rparr>)
     \<and> trace c = trace r @ [(Native thread, CaptureId (getCurrentThreadId P thread))]
     \<and> runningThreads n = runningThreads c \<and> heap n = heap c
     \<and> trace n = trace c @
         (if threadName (heap w thread) \<noteq> []
          then [(Native thread, SetCurrentThreadName (threadName (heap w thread)))] else [])
     \<and> fst (te_wait_gate P thread n) = gate_signalled P thread
     \<and> runningThreads g = runningThreads n \<and> heap g = heap n
     \<and> trace g = trace n @ [(Native thread, GateWait 10000 (gate_signalled P thread))]
     \<and> runningThreads a = runningThreads g \<and> heap a = heap g
     \<and> trace a = trace g @
         (if affinityMask (heap w thread) \<noteq> 0
          then [(Native thread, SetAffinityMask (affinityMask (heap w thread)))] else [])
     \<and> runningThreads u = runningThreads a \<and> heap u = heap a
     \<and> trace u = trace a @ [(Native thread, RunUserCode)] @
         (if run_throws P thread then [(Native thread, AssertFailed)] else [])
     \<and> runningThreads d = remove1 thread (runningThreads w @ [thread]) \<and> heap d = heap m
     \<and> trace d = trace m @
         map (Pair (Native thread)) [LockEnter, RegistryRemove thread, LockExit]
     \<and> runningThreads x = runningThreads d \<and> heap x = heap d
     \<and> trace x = trace d @
         (if JUCE_WIN32 P
          then [(Native thread, CloseThreadHandle (threadHandle (heap w thread)))] else [])
     \<and> runningThreads y = runningThreads x
     \<and> heap y = (heap x)(thread := (heap x thread)\<lparr>threadHandle := 0\<rparr>)
     \<and> trace y = trace x @ [(Native thread, HandleCleared)]
     \<and> runningThreads z = runningThreads y
     \<and> heap z = (heap y)(thread := (heap y thread)\<lparr>threadId := 0\<rparr>)
     \<and> trace z = trace y @ [(Native thread, IdCleared)]"
    unfolding Let_def
    apply (intro conjI)
    apply (rule whole)
    apply (simp_all add: stages(1-21,23-31) stages(22) [OF mem])
    done
  have fin: "heap (snd (threadEntryPoint P thread w)) =
       (heap w)(thread := (heap w thread)\<lparr>threadHandle := 0, threadId := 0\<rparr>)"
    "runningThreads (snd (threadEntryPoint P thread w)) =
       remove1 thread (runningThreads w @ [thread])"
    "trace (snd (threadEntryPoint P thread w)) =
     trace w @ map (Pair (Native thread))
       ([LockEnter, RegistryAdd thread, LockExit, CaptureId (getCurrentThreadId P thread)]
        @ (if threadName (heap w thread) \<noteq> []
           then [SetCurrentThreadName (threadName (heap w thread))] else [])
        @ [GateWait 10000 (gate_signalled P thread)]
        @ (if gate_signalled P thread
           then (if affinityMask (heap w thread) \<noteq> 0
                 then [SetAffinityMask (affinityMask (heap w thread))] else [])
                @ [RunUserCode] @ (if run_throws P thread then [AssertFailed] else [])
           else [])
        @ [LockEnter, RegistryRemove thread, LockExit]
        @ (if JUCE_WIN32 P then [CloseThreadHandle (threadHandle (heap w thread))] else [])
        @ [HandleCleared, IdCleared])"
    by (simp_all add: threadEntryPoint_split te_exit_fields te_mid_fields)
  from steps fin run show ?thesis by (intro conjI)
qed

theorem threadEntryPoint_order_witness:
  "trace (snd (threadEntryPoint demo_platform 1 demo_started)) =
     trace demo_started @
       [(Native 1, LockEnter), (Native 1, RegistryAdd 1), (Native 1, LockExit),
        (Native 1, CaptureId 201), (Native 1, SetCurrentThreadName ''worker''),
        (Native 1, GateWait 10000 True), (Native 1, RunUserCode),
        (Native 1, LockEnter), (Native 1, RegistryRemove 1), (Native 1, LockExit),
        (Native 1, HandleCleared), (Native 1, IdCleared)]
   \<and> trace (snd (threadEntryPoint timeout_platform 1 demo_started)) =
     trace demo_started @
       [(Native 1, LockEnter), (Native 1, RegistryAdd 1), (Native 1, LockExit),
        (Native 1, CaptureId 201), (Native 1, SetCurrentThreadName ''worker''),
        (Native 1, GateWait 10000 False),
        (Native 1, LockEnter), (Native 1, RegistryRemove 1), (Native 1, LockExit),
        (Native 1, HandleCleared), (Native 1, IdCleared)]
   \<and> runningThreads (te_register 1 demo_started) = [1]
   \<and> threadId (heap (te_capture_id demo_platform 1 (te_register 1 demo_started)) 1) = 201
   \<and> runningThreads (snd (threadEntryPoint timeout_platform 1 demo_started)) = []
   \<and> threadHandle (heap (snd (threadEntryPoint timeout_platform 1 demo_started)) 1) = 0
   \<and> threadId (heap (snd (threadEntryPoint timeout_platform 1 demo_started)) 1) = 0"
  using threadEntryPoint_order [of 1 demo_started demo_platform]
    threadEntryPoint_order [of 1 demo_started timeout_platform]
    demo_started_values demo_platform_values
  by (simp add: Let_def)

text \<open>
  C6. Control leaves \<^verbatim>\<open>threadEntryPoint\<close> by a normal return, also when \<^verbatim>\<open>run()\<close>
  threw inside the guarded block. In every case the trace ends with the removal from the
  registry under the lock, the release of the handle on Windows, and the clearing of the
  handle and of the id; the registry has lost the entry that the call added, and the
  handle and the thread id of the instance are \<open>0\<close>.
\<close>

theorem threadEntryPoint_cleanup:
  "fst (threadEntryPoint P thread w) = Returned
   \<and> (gate_signalled P thread \<and> run_throws P thread \<longrightarrow>
        fst (te_guarded P thread (te_register thread w)) = Thrown)
   \<and> (\<exists>before. trace (snd (threadEntryPoint P thread w)) =
         before @ map (Pair (Native thread))
           ([LockEnter, RegistryRemove thread, LockExit]
            @ (if JUCE_WIN32 P then [CloseThreadHandle (threadHandle (heap w thread))] else [])
            @ [HandleCleared, IdCleared]))
   \<and> runningThreads (snd (threadEntryPoint P thread w)) =
        remove1 thread (runningThreads w @ [thread])
   \<and> (thread \<notin> set (runningThreads w) \<longrightarrow>
        thread \<notin> set (runningThreads (snd (threadEntryPoint P thread w))))
   \<and> threadHandle (heap (snd (threadEntryPoint P thread w)) thread) = 0
   \<and> threadId (heap (snd (threadEntryPoint P thread w)) thread) = 0"
proof -
  have "thread \<notin> set (remove1 thread (runningThreads w @ [thread]))"
    if "thread \<notin> set (runningThreads w)"
    using that by (simp add: remove1_append)
  moreover have "\<exists>before. trace (snd (threadEntryPoint P thread w)) =
         before @ map (Pair (Native thread))
           ([LockEnter, RegistryRemove thread, LockExit]
            @ (if JUCE_WIN32 P then [CloseThreadHandle (threadHandle (heap w thread))] else [])
            @ [HandleCleared, IdCleared])"
    by (simp add: threadEntryPoint_split te_exit_fields te_mid_fields)
  ultimately show ?thesis
    by (simp add: threadEntryPoint_split te_exit_fields te_mid_fields te_guarded_fields)
qed

theorem threadEntryPoint_cleanup_witness:
  "gate_signalled throwing_platform 1 \<and> run_throws throwing_platform 1
   \<and> 1 \<notin> set (runningThreads demo_started)
   \<and> fst (te_guarded throwing_platform 1 (te_register 1 demo_started)) = Thrown
   \<and> fst (threadEntryPoint throwing_platform 1 demo_started) = Returned
   \<and> 1 \<notin> set (runningThreads (snd (threadEntryPoint throwing_platform 1 demo_started)))
   \<and> threadHandle (heap (snd (threadEntryPoint throwing_platform 1 demo_started)) 1) = 0
   \<and> threadId (heap (snd (threadEntryPoint throwing_platform 1 demo_started)) 1) = 0"
proof -
  have "1 \<notin> set (runningThreads demo_started)" using demo_started_values(4) by simp
  with threadEntryPoint_cleanup [of throwing_platform 1 demo_started] demo_platform_values(8,9)
  show ?thesis by blast
qed

text \<open>
  C7, amended. \<^verbatim>\<open>waitForThreadToExit\<close>, called by a thread that is not the target. It
  polls \<^verbatim>\<open>isThreadRunning()\<close> and sleeps 5 ms between two polls, doing nothing else. It
  returns true exactly when some poll finds the handle null, where a positive timeout
  \<open>t\<close> allows the polls after \<open>0\<close> to \<open>t div 5\<close> sleeps. With a positive timeout it
  always returns, after at most \<open>t div 5\<close> sleeps, and it returns false after exactly
  \<open>t div 5\<close> sleeps. A timeout of zero or less is no budget at all: the loop polls until
  the thread has exited and never returns false.
\<close>

theorem waitForThreadToExit_polls:
  assumes "getThreadId this w \<noteq> cid"
  shows "((\<exists>w'. waitForThreadToExit P S cid tmo this w = Some (True, w')) =
            (\<exists>k. (0 < tmo \<longrightarrow> int k \<le> tmo div 5) \<and>
                 \<not> isThreadRunning this (after_sleeps P S k w)))
       \<and> (0 < tmo \<longrightarrow> waitForThreadToExit P S cid tmo this w \<noteq> None)
       \<and> (\<forall>b w'. waitForThreadToExit P S cid tmo this w = Some (b, w') \<longrightarrow>
            (\<exists>k. w' = after_sleeps P S k w
                \<and> new_actions w w' = replicate k (Sleep 5)
                \<and> (\<forall>j<k. isThreadRunning this (after_sleeps P S j w))
                \<and> b = (\<not> isThreadRunning this w')
                \<and> (0 < tmo \<longrightarrow> int k \<le> tmo div 5)
                \<and> (\<not> b \<longrightarrow> 0 < tmo \<and> int k = tmo div 5)))"
proof (intro conjI allI impI)
  let ?c = "cdiv tmo sleepMsPerIteration"
  have eq: "waitForThreadToExit P S cid tmo this w = wait_loop P S tmo this ?c w"
    by (rule waitForThreadToExit_plain [OF assms])
  have post: "\<exists>k. w' = after_sleeps P S k w
                \<and> new_actions w w' = replicate k (Sleep 5)
                \<and> (\<forall>j<k. isThreadRunning this (after_sleeps P S j w))
                \<and> b = (\<not> isThreadRunning this w')
                \<and> (0 < tmo \<longrightarrow> int k \<le> tmo div 5)
                \<and> (\<not> b \<longrightarrow> 0 < tmo \<and> int k = tmo div 5)"
    if r: "waitForThreadToExit P S cid tmo this w = Some (b, w')" for b w'
  proof -
    from r eq have "wait_post P S tmo this ?c w (b, w')" by (simp add: wait_loop_Some)
    with cdiv_nonneg [of tmo] obtain k where k:
      "w' = after_sleeps P S k w"
      "\<forall>j<k. isThreadRunning this (after_sleeps P S j w)"
      "b = (\<not> isThreadRunning this w')"
      "0 < tmo \<longrightarrow> int k \<le> ?c"
      "\<not> b \<longrightarrow> 0 < tmo \<and> int k = ?c"
      unfolding wait_post_def by auto
    have "new_actions w w' = replicate k (Sleep 5)"
      using k(1) by (simp add: new_actions_append ca_after_sleeps sleepMsPerIteration_def)
    with k show ?thesis by (auto simp: cdiv_pos)
  qed
  show "(\<exists>w'. waitForThreadToExit P S cid tmo this w = Some (True, w')) =
            (\<exists>k. (0 < tmo \<longrightarrow> int k \<le> tmo div 5) \<and>
                 \<not> isThreadRunning this (after_sleeps P S k w))"
  proof
    assume "\<exists>w'. waitForThreadToExit P S cid tmo this w = Some (True, w')"
    then obtain w' where "waitForThreadToExit P S cid tmo this w = Some (True, w')" ..
    from post [OF this] show "\<exists>k. (0 < tmo \<longrightarrow> int k \<le> tmo div 5) \<and>
                 \<not> isThreadRunning this (after_sleeps P S k w)" by auto
  next
    assume "\<exists>k. (0 < tmo \<longrightarrow> int k \<le> tmo div 5) \<and>
                 \<not> isThreadRunning this (after_sleeps P S k w)"
    then obtain k where "\<not> isThreadRunning this (after_sleeps P S k w)"
      and "0 < tmo \<longrightarrow> int k \<le> ?c" by (auto simp: cdiv_pos)
    from wait_loop_exits [OF this] eq
    show "\<exists>w'. waitForThreadToExit P S cid tmo this w = Some (True, w')" by simp
  qed
  show "waitForThreadToExit P S cid tmo this w \<noteq> None" if "0 < tmo"
    using wait_loop_returns [OF that, of ?c "nat ?c" P S this w] cdiv_nonneg [OF that] eq
    by auto
  show "\<exists>k. w' = after_sleeps P S k w
                \<and> new_actions w w' = replicate k (Sleep 5)
                \<and> (\<forall>j<k. isThreadRunning this (after_sleeps P S j w))
                \<and> b = (\<not> isThreadRunning this w')
                \<and> (0 < tmo \<longrightarrow> int k \<le> tmo div 5)
                \<and> (\<not> b \<longrightarrow> 0 < tmo \<and> int k = tmo div 5)"
    if "waitForThreadToExit P S cid tmo this w = Some (b, w')" for b w'
    using post [OF that] .
qed

theorem waitForThreadToExit_polls_witness:
  "getThreadId 1 demo_running \<noteq> 99
   \<and> \<not> isThreadRunning 1 (after_sleeps demo_platform sched_exit 1 demo_running)
   \<and> map_option fst (waitForThreadToExit demo_platform sched_exit 99 12 1 demo_running)
       = Some True
   \<and> waitForThreadToExit demo_platform sched_never 99 12 1 demo_running \<noteq> None"
proof -
  have i: "getThreadId 1 demo_running \<noteq> 99" using demo_caller by simp
  have x: "\<not> isThreadRunning 1 (after_sleeps demo_platform sched_exit 1 demo_running)"
    by code_simp
  have "\<exists>k. (0 < (12::int) \<longrightarrow> int k \<le> 12 div 5) \<and>
            \<not> isThreadRunning 1 (after_sleeps demo_platform sched_exit k demo_running)"
    using x by (intro exI [of _ 1]) simp
  with waitForThreadToExit_polls [OF i, of demo_platform sched_exit 12]
  obtain w' where
    "waitForThreadToExit demo_platform sched_exit 99 12 1 demo_running = Some (True, w')"
    by blast
  moreover from waitForThreadToExit_polls [OF i, of demo_platform sched_never 12]
  have "waitForThreadToExit demo_platform sched_never 99 12 1 demo_running \<noteq> None"
    by simp
  ultimately show ?thesis using i x by simp
qed

theorem waitForThreadToExit_polls_counterexample:
  "getThreadId 1 demo_running \<noteq> 99 \<and> isThreadRunning 1 demo_running
   \<and> (case waitForThreadToExit demo_platform sched_exit 99 0 1 demo_running of
         None \<Rightarrow> False
       | Some (b, w') \<Rightarrow> b \<and> new_actions demo_running w' = [Sleep 5])"
proof -
  have "case waitForThreadToExit demo_platform sched_exit 99 0 1 demo_running of
         None \<Rightarrow> False
       | Some (b, w') \<Rightarrow> b \<and> new_actions demo_running w' = [Sleep 5]"
    by code_simp
  with demo_caller demo_running_values(1) show ?thesis by simp
qed

text \<open>
  C8. \<^verbatim>\<open>setPriority\<close> returns what \<^verbatim>\<open>juce_setThreadPriority\<close> returned for the handle
  of the instance, and afterwards the cached priority is the new one when the platform
  call succeeded and the old one when it failed.
\<close>

theorem setPriority_result:
  "fst (setPriority P p this w) = juce_setThreadPriority P (threadHandle (heap w this)) p
   \<and> threadPriority (heap (snd (setPriority P p this w)) this) =
       (if juce_setThreadPriority P (threadHandle (heap w this)) p then p
        else threadPriority (heap w this))"
  by (simp add: setPriority_def Let_def upd_def emit_def)

theorem setPriority_result_witness:
  "fst (setPriority demo_platform 7 1 demo_running)
   \<and> threadPriority (heap (snd (setPriority demo_platform 7 1 demo_running)) 1) = 7
   \<and> \<not> fst (setPriority strict_platform 7 1 demo_running)
   \<and> threadPriority (heap (snd (setPriority strict_platform 7 1 demo_running)) 1) = 5"
  using setPriority_result [of demo_platform 7 1 demo_running]
    setPriority_result [of strict_platform 7 1 demo_running]
    demo_platform_values(10,12) demo_running_values(2,4)
  by simp



text \<open>
  C10. \<^verbatim>\<open>startThread()\<close> leaves the exit flag false whatever the handle is. On a running
  instance whose exit has just been requested it clears the request and changes neither
  the handle nor the native thread.
\<close>

theorem startThread_clears_exit_request:
  "threadShouldExit (heap (startThread P this w) this) = False
   \<and> (isThreadRunning this w \<longrightarrow>
        threadShouldExit (heap (signalThreadShouldExit this w) this)
      \<and> \<not> threadShouldExit (heap (startThread P this (signalThreadShouldExit this w)) this)
      \<and> threadHandle (heap (startThread P this (signalThreadShouldExit this w)) this) =
          threadHandle (heap w this)
      \<and> tpc (startThread P this (signalThreadShouldExit this w)) = tpc w)"
  by (simp add: isThreadRunning_def startThread_def signalThreadShouldExit_def Let_def upd_def
      emit_def spawn_def)

theorem startThread_clears_exit_request_witness:
  "isThreadRunning 1 demo_running
   \<and> threadShouldExit (heap (signalThreadShouldExit 1 demo_running) 1)
   \<and> \<not> threadShouldExit
         (heap (startThread demo_platform 1 (signalThreadShouldExit 1 demo_running)) 1)
   \<and> threadHandle (heap (startThread demo_platform 1 (signalThreadShouldExit 1 demo_running)) 1)
       = 101"
  using startThread_clears_exit_request [of demo_platform 1 demo_running]
    demo_running_values(1,2)
  by metis

end
